theory Spec2Isabelle
  imports Main "HOL-Library.Word"
begin

unbundle bit_operations_syntax

section \<open>Data model of the keyboard matrix driver\<close>

text \<open>
  The driver keeps its configuration in \<open>struct input_kbd_matrix_common_config\<close> and its
  run-time data in \<open>struct input_kbd_matrix_common_data\<close>. The header declaring both is
  not part of the examined sources, so the field types are read off the uses in
  \<open>input_kbd_matrix.c\<close>: the per-column arrays are read into \<open>uint8_t\<close> locals, the
  cycle counter is a \<open>uint32_t\<close>, the per-key slot numbers are read into \<open>uint8_t\<close>
  locals. The constant \<open>INPUT_KBD_MATRIX_SCAN_OCURRENCES\<close> (the capacity of the ring
  of timestamps) and the kernel's cycle-to-microsecond conversion are parameters.
  The arrays are C arrays sized by the configuration (\<open>col_size\<close> entries per column
  array); here they are lists, a write beyond the end of a list has no effect, and the
  statements that depend on a write say how long the list is.
\<close>

type_synonym u8 = "8 word"
type_synonym u32 = "32 word"

record input_kbd_matrix_common_config =
  row_size :: nat
  col_size :: nat
  poll_period_us :: u32
  poll_timeout_ms :: nat
  debounce_down_ms :: u32
  debounce_up_ms :: u32
  ghostkey_check :: bool
  INPUT_KBD_MATRIX_SCAN_OCURRENCES :: nat
  k_cyc_to_us_floor32 :: "u32 \<Rightarrow> u32"

text \<open>
  The mutable arrays the configuration points to, the fields of the data structure, and
  the log of confirmed transitions handed to the input subsystem. One entry
  \<open>(c, r, row_bit)\<close> of \<open>reported\<close> stands for the three consecutive calls
  \<open>input_report_abs(X, c)\<close>, \<open>input_report_abs(Y, r)\<close>,
  \<open>input_report_key(BTN_TOUCH, row_bit)\<close>.
\<close>

record kbd_matrix =
  matrix_new_state :: "u8 list"
  matrix_previous_state :: "u8 list"
  matrix_unstable_state :: "u8 list"
  matrix_stable_state :: "u8 list"
  scan_cycle_idx :: "u8 list"
  scan_clk_cycle :: "u32 list"
  scan_cycles_idx :: u8
  reported :: "(nat \<times> nat \<times> u8) list"

section \<open>Ghosting detector\<close>

text \<open>\<open>z & (z - 1)\<close> on a \<open>uint8_t\<close>: at \<open>z = 0\<close> both the promoted C expression and the
  wrapped word give 0.\<close>

definition multi_bit :: "u8 \<Rightarrow> bool" where
  "multi_bit common_row_bits = (common_row_bits AND (common_row_bits - 1) \<noteq> 0)"

fun ghosting_inner :: "u8 list \<Rightarrow> nat \<Rightarrow> nat list \<Rightarrow> bool" where
  "ghosting_inner state c [] = False"
| "ghosting_inner state c (c_next # rest) =
     (if multi_bit (state ! c AND state ! c_next) then True
      else ghosting_inner state c rest)"

fun ghosting_outer :: "u8 list \<Rightarrow> nat \<Rightarrow> nat list \<Rightarrow> bool" where
  "ghosting_outer state n [] = False"
| "ghosting_outer state n (c # rest) =
     (if state ! c = 0 then ghosting_outer state n rest
      else if ghosting_inner state c [c + 1 ..< n] then True
      else ghosting_outer state n rest)"

definition input_kbd_matrix_ghosting ::
  "input_kbd_matrix_common_config \<Rightarrow> kbd_matrix \<Rightarrow> bool" where
  "input_kbd_matrix_ghosting cfg st =
     ghosting_outer (matrix_new_state st) (col_size cfg) [0 ..< col_size cfg]"

text \<open>The same double loop without the \<open>continue\<close> on an empty column, for comparison.\<close>

fun ghosting_outer_noskip :: "u8 list \<Rightarrow> nat \<Rightarrow> nat list \<Rightarrow> bool" where
  "ghosting_outer_noskip state n [] = False"
| "ghosting_outer_noskip state n (c # rest) =
     (if ghosting_inner state c [c + 1 ..< n] then True
      else ghosting_outer_noskip state n rest)"

section \<open>Raw scanner\<close>

text \<open>\<open>read_row col\<close> is what \<open>api->read_row\<close> returns after \<open>api->drive_column(col)\<close>
  and the settle delay.\<close>

definition scan_col :: "(nat \<Rightarrow> int) \<Rightarrow> nat \<Rightarrow> u8 \<times> kbd_matrix \<Rightarrow> u8 \<times> kbd_matrix" where
  "scan_col read_row col = (\<lambda>(key_event, st).
     let row = read_row col AND 255
     in (key_event OR word_of_int row,
         st\<lparr>matrix_new_state := (matrix_new_state st)[col := word_of_int row]\<rparr>))"

definition input_kbd_matrix_scan ::
  "input_kbd_matrix_common_config \<Rightarrow> (nat \<Rightarrow> int) \<Rightarrow> kbd_matrix \<Rightarrow> bool \<times> kbd_matrix" where
  "input_kbd_matrix_scan cfg read_row st =
     (let (key_event, st') = fold (scan_col read_row) [0 ..< col_size cfg] (0, st)
      in (key_event \<noteq> 0, st'))"

section \<open>Debounce engine\<close>

text \<open>Modelled from the spec: the macro \<open>BIT\<close> is not among the examined sources; it is
  the mask of "row bit" \<open>r\<close>, here as stored in or compared with a \<open>uint8_t\<close>, so it
  is 0 from \<open>r = 8\<close> on.\<close>

definition BIT8 :: "nat \<Rightarrow> u8" where
  "BIT8 r = push_bit r 1"

text \<open>\<open>uint8_t cyc_idx = c * cfg->row_size + r\<close>.\<close>

definition cyc_idx :: "input_kbd_matrix_common_config \<Rightarrow> nat \<Rightarrow> nat \<Rightarrow> nat" where
  "cyc_idx cfg c r = (c * row_size cfg + r) mod 256"

text \<open>First loop, inner part: every changed row of column \<open>c\<close> is stamped with the
  current slot of the ring.\<close>

definition stamp_row ::
  "input_kbd_matrix_common_config \<Rightarrow> nat \<Rightarrow> u8 \<Rightarrow> u8 \<Rightarrow> nat \<Rightarrow> u8 list \<Rightarrow> u8 list" where
  "stamp_row cfg c row_changed cursor r idxs =
     (if row_changed AND BIT8 r \<noteq> 0 then idxs[cyc_idx cfg c r := cursor] else idxs)"

definition gather_col :: "input_kbd_matrix_common_config \<Rightarrow> nat \<Rightarrow> kbd_matrix \<Rightarrow> kbd_matrix" where
  "gather_col cfg c st =
     (let row_changed = matrix_new_state st ! c XOR matrix_previous_state st ! c
      in if row_changed = 0 then st
         else st\<lparr>scan_cycle_idx :=
                    fold (stamp_row cfg c row_changed (scan_cycles_idx st))
                      [0 ..< row_size cfg] (scan_cycle_idx st),
                  matrix_unstable_state :=
                    (matrix_unstable_state st)[c := matrix_unstable_state st ! c OR row_changed],
                  matrix_previous_state :=
                    (matrix_previous_state st)[c := matrix_new_state st ! c]\<rparr>)"

text \<open>The elapsed time of key \<open>(c, r)\<close>. The timestamp read from the ring is assigned to a
  \<open>uint8_t\<close> local before it is subtracted from the 32-bit counter.\<close>

definition key_debt ::
  "input_kbd_matrix_common_config \<Rightarrow> u32 \<Rightarrow> kbd_matrix \<Rightarrow> nat \<Rightarrow> nat \<Rightarrow> u32" where
  "key_debt cfg cycles_now st c r =
     (let scan_cyc_idx = scan_cycle_idx st ! cyc_idx cfg c r;
          scan_clk = (ucast (scan_clk_cycle st ! unat scan_cyc_idx) :: u8)
      in k_cyc_to_us_floor32 cfg (cycles_now - ucast scan_clk))"

text \<open>Second loop, body of the row loop for key \<open>(c, r)\<close>; \<open>deb_col\<close> is the unstable
  mask of the column as read before the row loop.\<close>

definition debounce_key ::
  "input_kbd_matrix_common_config \<Rightarrow> u32 \<Rightarrow> nat \<Rightarrow> u8 \<Rightarrow> nat \<Rightarrow> kbd_matrix \<Rightarrow> kbd_matrix" where
  "debounce_key cfg cycles_now c deb_col r st =
     (let mask = BIT8 r;
          row_bit = matrix_new_state st ! c AND mask
      in if deb_col AND mask = 0 then st
         else if key_debt cfg cycles_now st c r
                   < (if row_bit \<noteq> 0 then debounce_down_ms cfg else debounce_up_ms cfg)
         then st
         else
           let st1 = st\<lparr>matrix_unstable_state :=
                          (matrix_unstable_state st)
                            [c := matrix_unstable_state st ! c AND NOT row_bit]\<rparr>
           in if matrix_stable_state st1 ! c AND mask = row_bit then st1
              else st1\<lparr>matrix_stable_state :=
                          (matrix_stable_state st1)[c := matrix_stable_state st1 ! c XOR mask],
                        reported := reported st1 @ [(c, r, row_bit)]\<rparr>)"

definition debounce_col ::
  "input_kbd_matrix_common_config \<Rightarrow> u32 \<Rightarrow> nat \<Rightarrow> kbd_matrix \<Rightarrow> kbd_matrix" where
  "debounce_col cfg cycles_now c st =
     (let deb_col = matrix_unstable_state st ! c
      in if deb_col = 0 then st
         else fold (debounce_key cfg cycles_now c deb_col) [0 ..< row_size cfg] st)"

definition input_kbd_matrix_update_state ::
  "input_kbd_matrix_common_config \<Rightarrow> u32 \<Rightarrow> kbd_matrix \<Rightarrow> kbd_matrix" where
  "input_kbd_matrix_update_state cfg cycles_now st =
     (let st0 = st\<lparr>scan_clk_cycle :=
                     (scan_clk_cycle st)[unat (scan_cycles_idx st) := cycles_now]\<rparr>;
          st1 = fold (gather_col cfg) [0 ..< col_size cfg] st0
      in fold (debounce_col cfg cycles_now) [0 ..< col_size cfg] st1)"

section \<open>One scan cycle\<close>

text \<open>\<open>if (++data->scan_cycles_idx >= INPUT_KBD_MATRIX_SCAN_OCURRENCES) ... = 0U\<close>.\<close>

definition advance_cursor :: "input_kbd_matrix_common_config \<Rightarrow> u8 \<Rightarrow> u8" where
  "advance_cursor cfg idx =
     (if INPUT_KBD_MATRIX_SCAN_OCURRENCES cfg \<le> unat (idx + 1) then 0 else idx + 1)"

definition input_kbd_matrix_check_key_events ::
  "input_kbd_matrix_common_config \<Rightarrow> (nat \<Rightarrow> int) \<Rightarrow> u32 \<Rightarrow> kbd_matrix \<Rightarrow> bool \<times> kbd_matrix" where
  "input_kbd_matrix_check_key_events cfg read_row cycles_now st =
     (let st1 = st\<lparr>scan_cycles_idx := advance_cursor cfg (scan_cycles_idx st)\<rparr>;
          (key_pressed, st2) = input_kbd_matrix_scan cfg read_row st1
      in if ghostkey_check cfg \<and> input_kbd_matrix_ghosting cfg st2 then (key_pressed, st2)
         else (key_pressed, input_kbd_matrix_update_state cfg cycles_now st2))"

section \<open>Polling loop\<close>

text \<open>Modelled from the spec: the kernel constant \<open>USEC_PER_MSEC\<close> is not among the
  examined sources; the sleep is counted in microseconds and its floor is "one
  millisecond".\<close>

definition USEC_PER_MSEC :: u32 where
  "USEC_PER_MSEC = 1000"

definition wait_period_us :: "input_kbd_matrix_common_config \<Rightarrow> u32 \<Rightarrow> u32 \<Rightarrow> u32" where
  "wait_period_us cfg start_period_cycles current_cycles =
     (let cycles_diff = current_cycles - start_period_cycles;
          w0 = poll_period_us cfg - k_cyc_to_us_floor32 cfg cycles_diff;
          w1 = (if w0 < USEC_PER_MSEC then USEC_PER_MSEC else w0)
      in if poll_period_us cfg < w1 then poll_period_us cfg else w1)"

text \<open>Modelled from the spec: the kernel helper \<open>sys_timepoint_calc\<close> (with \<open>K_MSEC\<close>) is
  not among the examined sources. The deadline is "now + idle_timeout"; uptime is counted
  in microseconds and the timeout is given in milliseconds.\<close>

definition sys_timepoint_calc :: "nat \<Rightarrow> nat \<Rightarrow> nat" where
  "sys_timepoint_calc now timeout_ms = now + 1000 * timeout_ms"

text \<open>Modelled from the spec: the kernel helper \<open>sys_timepoint_expired\<close> is not among the
  examined sources. The deadline "has passed" when the uptime has reached it.\<close>

definition sys_timepoint_expired :: "nat \<Rightarrow> nat \<Rightarrow> bool" where
  "sys_timepoint_expired now poll_time_end = (poll_time_end \<le> now)"

text \<open>Modelled from the spec: the kernel call \<open>k_usleep\<close> is not among the examined
  sources. The loop "sleeps for poll_period - elapsed": the sleep lasts the time asked
  for, so the uptime after it is the uptime before it plus that time.\<close>

definition k_usleep :: "nat \<Rightarrow> u32 \<Rightarrow> nat" where
  "k_usleep now wait_period = now + unat wait_period"

text \<open>What one iteration of the loop observes: the three readings of the cycle counter
  and the rows the hardware answers with.\<close>

record cycle_env =
  start_period_cycles :: u32
  read_row :: "nat \<Rightarrow> int"
  cycles_now :: u32
  current_cycles :: u32

text \<open>The processing time of an iteration in microseconds, as the loop itself measures it
  between its two readings of the cycle counter.\<close>

definition processing_us :: "input_kbd_matrix_common_config \<Rightarrow> cycle_env \<Rightarrow> nat" where
  "processing_us cfg e =
     unat (k_cyc_to_us_floor32 cfg (current_cycles e - start_period_cycles e))"

record poll_exit =
  final_state :: kbd_matrix
  slept :: "u32 list"
  exit_cycle_start :: nat
  exit_uptime :: nat
  cycles_left :: "cycle_env list"

text \<open>The \<open>while (true)\<close> loop, run on the observations of successive iterations, with the
  uptime \<open>now\<close> at the top of the iteration. The deadline is tested or recomputed when
  the processing of the iteration is done, and the next iteration starts after the
  sleep. The loop answers \<open>None\<close> while it has not reached its \<open>break\<close>.\<close>

fun poll_loop ::
  "input_kbd_matrix_common_config \<Rightarrow> cycle_env list \<Rightarrow> nat \<Rightarrow> nat \<Rightarrow> kbd_matrix \<Rightarrow> u32 list
     \<Rightarrow> poll_exit option" where
  "poll_loop cfg [] now poll_time_end st sl = None"
| "poll_loop cfg (e # es) now poll_time_end st sl =
     (let (key_pressed, st') =
            input_kbd_matrix_check_key_events cfg (read_row e) (cycles_now e) st;
          checked = now + processing_us cfg e;
          w = wait_period_us cfg (start_period_cycles e) (current_cycles e)
      in if key_pressed
         then poll_loop cfg es (k_usleep checked w)
                (sys_timepoint_calc checked (poll_timeout_ms cfg)) st' (sl @ [w])
         else if sys_timepoint_expired checked poll_time_end
         then Some \<lparr>final_state = st', slept = sl, exit_cycle_start = now,
                     exit_uptime = checked, cycles_left = es\<rparr>
         else poll_loop cfg es (k_usleep checked w) poll_time_end st' (sl @ [w]))"

definition input_kbd_matrix_poll ::
  "input_kbd_matrix_common_config \<Rightarrow> nat \<Rightarrow> cycle_env list \<Rightarrow> kbd_matrix \<Rightarrow> poll_exit option" where
  "input_kbd_matrix_poll cfg entry_uptime envs st =
     poll_loop cfg envs entry_uptime
       (sys_timepoint_calc entry_uptime (poll_timeout_ms cfg)) st []"

section \<open>Auxiliary notions used in the statements\<close>

text \<open>The row mask the scanner stores for a column: the low eight bits of the reading.\<close>

definition row_mask :: "(nat \<Rightarrow> int) \<Rightarrow> nat \<Rightarrow> u8" where
  "row_mask rr c = word_of_int (rr c AND 255)"

text \<open>The state after the first loop of \<open>input_kbd_matrix_update_state\<close>: the timestamp
  of the cycle is in the ring and the changes of the new snapshot are gathered.\<close>

definition gather_state :: "input_kbd_matrix_common_config \<Rightarrow> u32 \<Rightarrow> kbd_matrix \<Rightarrow> kbd_matrix" where
  "gather_state cfg now st =
     fold (gather_col cfg) [0 ..< col_size cfg]
       (st\<lparr>scan_clk_cycle := (scan_clk_cycle st)[unat (scan_cycles_idx st) := now]\<rparr>)"

text \<open>The settle threshold of key \<open>(c, r)\<close>, chosen by its raw level in the new snapshot.\<close>

definition key_threshold :: "input_kbd_matrix_common_config \<Rightarrow> kbd_matrix \<Rightarrow> nat \<Rightarrow> nat \<Rightarrow> u32" where
  "key_threshold cfg st c r =
     (if matrix_new_state st ! c AND BIT8 r \<noteq> 0 then debounce_down_ms cfg else debounce_up_ms cfg)"

text \<open>Key \<open>(c, r)\<close> is marked in the unstable mask \<open>deb_col\<close> of its column and the
  elapsed time the code computes for it is not below its threshold.\<close>

definition key_due ::
  "input_kbd_matrix_common_config \<Rightarrow> u32 \<Rightarrow> kbd_matrix \<Rightarrow> nat \<Rightarrow> u8 \<Rightarrow> nat \<Rightarrow> bool" where
  "key_due cfg now st c deb_col r =
     (deb_col AND BIT8 r \<noteq> 0 \<and> \<not> key_debt cfg now st c r < key_threshold cfg st c r)"

text \<open>The debounce window of key \<open>(c, r)\<close> closes in this cycle.\<close>

definition window_closes ::
  "input_kbd_matrix_common_config \<Rightarrow> u32 \<Rightarrow> kbd_matrix \<Rightarrow> nat \<Rightarrow> nat \<Rightarrow> bool" where
  "window_closes cfg now st c r =
     key_due cfg now st c (matrix_unstable_state st ! c) r"

text \<open>The window closes and the raw level differs from the stable state.\<close>

definition confirms ::
  "input_kbd_matrix_common_config \<Rightarrow> u32 \<Rightarrow> kbd_matrix \<Rightarrow> nat \<Rightarrow> nat \<Rightarrow> bool" where
  "confirms cfg now st c r =
     (window_closes cfg now st c r
      \<and> matrix_stable_state st ! c AND BIT8 r \<noteq> matrix_new_state st ! c AND BIT8 r)"

text \<open>The same test with the unstable mask of the column given, as the row loop has it.\<close>

definition key_conf ::
  "input_kbd_matrix_common_config \<Rightarrow> u32 \<Rightarrow> kbd_matrix \<Rightarrow> nat \<Rightarrow> u8 \<Rightarrow> nat \<Rightarrow> bool" where
  "key_conf cfg now st c d r =
     (key_due cfg now st c d r
      \<and> matrix_stable_state st ! c AND BIT8 r \<noteq> matrix_new_state st ! c AND BIT8 r)"

text \<open>The transitions of column \<open>c\<close>, in row order.\<close>

definition col_reports ::
  "input_kbd_matrix_common_config \<Rightarrow> u32 \<Rightarrow> kbd_matrix \<Rightarrow> nat \<Rightarrow> (nat \<times> nat \<times> u8) list" where
  "col_reports cfg now st c =
     map (\<lambda>r. (c, r, matrix_new_state st ! c AND BIT8 r))
       (filter (confirms cfg now st c) [0 ..< row_size cfg])"

text \<open>The transitions of key \<open>(c, r)\<close> among some reports, and the reports added between two
  states.\<close>

definition key_reports :: "nat \<Rightarrow> nat \<Rightarrow> (nat \<times> nat \<times> u8) list \<Rightarrow> (nat \<times> nat \<times> u8) list" where
  "key_reports c r evs = filter (\<lambda>e. fst e = c \<and> fst (snd e) = r) evs"

definition cycle_reports :: "kbd_matrix \<Rightarrow> kbd_matrix \<Rightarrow> (nat \<times> nat \<times> u8) list" where
  "cycle_reports st st' = drop (length (reported st)) (reported st')"

text \<open>The state the second loop of the update works on in a cycle that is not vetoed.\<close>

definition cycle_gathered ::
  "input_kbd_matrix_common_config \<Rightarrow> (nat \<Rightarrow> int) \<Rightarrow> u32 \<Rightarrow> kbd_matrix \<Rightarrow> kbd_matrix" where
  "cycle_gathered cfg rr now st =
     gather_state cfg now
       ((snd (input_kbd_matrix_scan cfg rr st))
          \<lparr>scan_cycles_idx := advance_cursor cfg (scan_cycles_idx st)\<rparr>)"

text \<open>A cycle that reads no row in any column.\<close>

definition quiet :: "input_kbd_matrix_common_config \<Rightarrow> cycle_env \<Rightarrow> bool" where
  "quiet cfg e = (\<forall>c < col_size cfg. read_row e c AND 255 = 0)"

text \<open>The uptime from the top of an iteration to the top of the next: its processing time
  and the sleep the loop computes for it.\<close>

definition cycle_us :: "input_kbd_matrix_common_config \<Rightarrow> cycle_env \<Rightarrow> nat" where
  "cycle_us cfg e =
     processing_us cfg e + unat (wait_period_us cfg (start_period_cycles e) (current_cycles e))"

text \<open>Successive cycles, each given by the rows it reads and its cycle count.\<close>

fun run_cycles ::
  "input_kbd_matrix_common_config \<Rightarrow> ((nat \<Rightarrow> int) \<times> u32) list \<Rightarrow> kbd_matrix \<Rightarrow> kbd_matrix" where
  "run_cycles cfg [] st = st"
| "run_cycles cfg ((rr, now) # cs) st =
     run_cycles cfg cs (snd (input_kbd_matrix_check_key_events cfg rr now st))"

section \<open>Concrete devices for the examples\<close>

text \<open>A cycle counter running at 1 MHz: one cycle is one microsecond.\<close>

definition cyc_1MHz :: "u32 \<Rightarrow> u32" where
  "cyc_1MHz cycles = cycles"

definition kbd_2x2 :: input_kbd_matrix_common_config where
  "kbd_2x2 = \<lparr>row_size = 2, col_size = 2, poll_period_us = 5000, poll_timeout_ms = 100,
     debounce_down_ms = 10000, debounce_up_ms = 10000, ghostkey_check = True,
     INPUT_KBD_MATRIX_SCAN_OCURRENCES = 4, k_cyc_to_us_floor32 = cyc_1MHz\<rparr>"

definition kbd_fast_poll :: input_kbd_matrix_common_config where
  "kbd_fast_poll = kbd_2x2\<lparr>poll_period_us := 500\<rparr>"

definition released_2x2 :: kbd_matrix where
  "released_2x2 = \<lparr>matrix_new_state = [0, 0], matrix_previous_state = [0, 0],
     matrix_unstable_state = [0, 0], matrix_stable_state = [0, 0],
     scan_cycle_idx = [0, 0, 0, 0], scan_clk_cycle = [0, 0, 0, 0],
     scan_cycles_idx = 0, reported = []\<rparr>"

definition no_key :: "nat \<Rightarrow> int" where
  "no_key c = 0"

definition one_key :: "nat \<Rightarrow> int" where
  "one_key c = (if c = 0 then 1 else 0)"

definition ghost_block :: "nat \<Rightarrow> int" where
  "ghost_block c = 3"

definition blocked_2x2 :: kbd_matrix where
  "blocked_2x2 = released_2x2\<lparr>matrix_new_state := [3, 3]\<rparr>"

text \<open>Key (0, 0) held and confirmed; then its release as three cycles see it, 5 ms apart,
  the first 200 us after the counter started.\<close>

definition held_2x2 :: kbd_matrix where
  "held_2x2 = \<lparr>matrix_new_state = [1, 0], matrix_previous_state = [1, 0],
     matrix_unstable_state = [0, 0], matrix_stable_state = [1, 0],
     scan_cycle_idx = [0, 0, 0, 0], scan_clk_cycle = [0, 0, 0, 0],
     scan_cycles_idx = 0, reported = []\<rparr>"

definition release_seen_2x2 :: kbd_matrix where
  "release_seen_2x2 = \<lparr>matrix_new_state = [0, 0], matrix_previous_state = [0, 0],
     matrix_unstable_state = [1, 0], matrix_stable_state = [1, 0],
     scan_cycle_idx = [1, 0, 0, 0], scan_clk_cycle = [0, 200, 0, 0],
     scan_cycles_idx = 1, reported = []\<rparr>"

definition release_settling_2x2 :: kbd_matrix where
  "release_settling_2x2 = release_seen_2x2\<lparr>scan_clk_cycle := [0, 200, 5200, 0],
     scan_cycles_idx := 2\<rparr>"

definition release_confirmed_2x2 :: kbd_matrix where
  "release_confirmed_2x2 = \<lparr>matrix_new_state = [0, 0], matrix_previous_state = [0, 0],
     matrix_unstable_state = [1, 0], matrix_stable_state = [0, 0],
     scan_cycle_idx = [1, 0, 0, 0], scan_clk_cycle = [0, 200, 5200, 10200],
     scan_cycles_idx = 3, reported = [(0, 0, 0)]\<rparr>"

text \<open>The snapshot of a release just scanned, one second after the counter started.\<close>

definition release_scanned_2x2 :: kbd_matrix where
  "release_scanned_2x2 = held_2x2\<lparr>matrix_new_state := [0, 0], scan_cycles_idx := 1\<rparr>"

text \<open>A press seen one second after the counter started, and its release 5 ms later.\<close>

definition press_reported_2x2 :: kbd_matrix where
  "press_reported_2x2 = \<lparr>matrix_new_state = [1, 0], matrix_previous_state = [1, 0],
     matrix_unstable_state = [0, 0], matrix_stable_state = [1, 0],
     scan_cycle_idx = [1, 0, 0, 0], scan_clk_cycle = [0, 1000000, 0, 0],
     scan_cycles_idx = 1, reported = [(0, 0, 1)]\<rparr>"

definition bounce_reported_2x2 :: kbd_matrix where
  "bounce_reported_2x2 = \<lparr>matrix_new_state = [0, 0], matrix_previous_state = [0, 0],
     matrix_unstable_state = [1, 0], matrix_stable_state = [0, 0],
     scan_cycle_idx = [2, 0, 0, 0], scan_clk_cycle = [0, 1000000, 1005000, 0],
     scan_cycles_idx = 2, reported = [(0, 0, 1), (0, 0, 0)]\<rparr>"

text \<open>A released key still marked unstable, stamped with slot 1 of the ring; the cursor is
  about to come round to that slot.\<close>

definition release_stuck_2x2 :: kbd_matrix where
  "release_stuck_2x2 = \<lparr>matrix_new_state = [0, 0], matrix_previous_state = [0, 0],
     matrix_unstable_state = [1, 0], matrix_stable_state = [0, 0],
     scan_cycle_idx = [1, 0, 0, 0], scan_clk_cycle = [15200, 200, 5200, 10200],
     scan_cycles_idx = 0, reported = [(0, 0, 0)]\<rparr>"

text \<open>The same matrix with an idle timeout of 10 ms (the poll period is 5 ms), and an
  iteration that reads the rows \<open>rr\<close> and whose processing takes \<open>us\<close> microseconds.\<close>

definition kbd_short_idle :: input_kbd_matrix_common_config where
  "kbd_short_idle = kbd_2x2\<lparr>poll_timeout_ms := 10\<rparr>"

definition cycle_taking :: "(nat \<Rightarrow> int) \<Rightarrow> nat \<Rightarrow> cycle_env" where
  "cycle_taking rr us = \<lparr>start_period_cycles = 1000000, read_row = rr,
     cycles_now = 1000050, current_cycles = 1000000 + of_nat us\<rparr>"

section \<open>Raw scanner: the snapshot and the activity flag\<close>

lemma scan_col_fold:
  "fold (scan_col rr) cs (k, st) =
     (fold (\<lambda>c k. k OR row_mask rr c) cs k,
      st\<lparr>matrix_new_state := fold (\<lambda>c xs. xs[c := row_mask rr c]) cs (matrix_new_state st)\<rparr>)"
  by (induction cs arbitrary: k st) (simp_all add: scan_col_def row_mask_def Let_def)

lemma scan_closed:
  "input_kbd_matrix_scan cfg rr st =
     (fold (\<lambda>c k. k OR row_mask rr c) [0 ..< col_size cfg] 0 \<noteq> 0,
      st\<lparr>matrix_new_state :=
           fold (\<lambda>c xs. xs[c := row_mask rr c]) [0 ..< col_size cfg] (matrix_new_state st)\<rparr>)"
  by (simp add: input_kbd_matrix_scan_def scan_col_fold)

lemma fill_upt:
  "n \<le> length xs \<Longrightarrow> fold (\<lambda>c xs. xs[c := f c]) [0 ..< n] xs = map f [0 ..< n] @ drop n xs"
proof (induction n)
  case 0
  then show ?case by simp
next
  case (Suc n)
  then have less: "n < length xs" by simp
  then have "(map f [0 ..< n] @ drop n xs)[n := f n] = map f [0 ..< n] @ (drop n xs)[0 := f n]"
    by (simp add: list_update_append)
  also have "(drop n xs)[0 := f n] = f n # drop (Suc n) xs"
    using less by (simp add: Cons_nth_drop_Suc [symmetric])
  finally show ?case using Suc by simp
qed

lemma or_fold_zero:
  "(fold (\<lambda>c k. k OR f c) cs (k :: u8) = 0) = (k = 0 \<and> (\<forall>c \<in> set cs. f c = 0))"
  by (induction cs arbitrary: k) (auto simp: or_eq_0_iff)

lemma or_fold_list:
  "fold (\<lambda>c k. k OR f c) cs (k :: u8) = fold (\<lambda>x k. k OR x) (map f cs) k"
  by (induction cs arbitrary: k) auto

lemma row_mask_zero: "(row_mask rr c = 0) = (rr c AND 255 = 0)"
proof -
  have "0 \<le> rr c AND 255" by simp
  moreover have "rr c AND 255 \<le> 255" by (simp add: AND_upper2)
  ultimately have "(256 dvd rr c AND 255) = (rr c AND 255 = 0)"
    by presburger
  then show ?thesis
    by (simp add: row_mask_def word_of_int_eq_0_iff)
qed

lemma scan_frame:
  "length (matrix_new_state st) = col_size cfg \<Longrightarrow>
   snd (input_kbd_matrix_scan cfg rr st)
     = st\<lparr>matrix_new_state := map (row_mask rr) [0 ..< col_size cfg]\<rparr>"
  by (simp add: scan_closed fill_upt)

lemma scan_flag:
  "fst (input_kbd_matrix_scan cfg rr st) = (\<exists>c < col_size cfg. rr c AND 255 \<noteq> 0)"
  by (auto simp: scan_closed or_fold_zero row_mask_zero)

text \<open>
  C7. A scan stores, for every column index below \<open>col_size\<close>, the row mask read for that
  column; it returns true exactly when the OR of the stored row masks is nonzero (that
  is, when some column read a nonzero mask); and it changes nothing but the new-state
  snapshot: previous, unstable and stable state, the per-key slot numbers, the ring of
  timestamps, its cursor and the reported transitions are those of the state before.
\<close>

theorem scan_snapshot:
  assumes "length (matrix_new_state st) = col_size cfg"
  shows "matrix_new_state (snd (input_kbd_matrix_scan cfg rr st))
           = map (\<lambda>c. word_of_int (rr c AND 255)) [0 ..< col_size cfg]
       \<and> fst (input_kbd_matrix_scan cfg rr st)
           = (fold (\<lambda>x k. k OR x) (matrix_new_state (snd (input_kbd_matrix_scan cfg rr st))) 0 \<noteq> 0)
       \<and> fst (input_kbd_matrix_scan cfg rr st)
           = (\<exists>c < col_size cfg. rr c AND 255 \<noteq> 0)
       \<and> snd (input_kbd_matrix_scan cfg rr st)
           = st\<lparr>matrix_new_state := matrix_new_state (snd (input_kbd_matrix_scan cfg rr st))\<rparr>"
proof -
  have new: "matrix_new_state (snd (input_kbd_matrix_scan cfg rr st))
      = map (row_mask rr) [0 ..< col_size cfg]"
    using assms by (simp add: scan_frame)
  have flag': "fst (input_kbd_matrix_scan cfg rr st)
      = (fold (\<lambda>x k. k OR x) (map (row_mask rr) [0 ..< col_size cfg]) 0 \<noteq> 0)"
    by (simp add: scan_closed or_fold_list [symmetric])
  have rm: "row_mask rr = (\<lambda>c. word_of_int (rr c AND 255))"
    by (rule ext) (simp add: row_mask_def)
  show ?thesis
    unfolding new using scan_flag [of cfg rr st] flag' scan_frame [OF assms, of rr]
    by (simp add: rm)
qed

theorem scan_snapshot_witness:
  "length (matrix_new_state released_2x2) = col_size kbd_2x2
   \<and> input_kbd_matrix_scan kbd_2x2 one_key released_2x2
       = (True, released_2x2\<lparr>matrix_new_state := [1, 0]\<rparr>)"
proof -
  have h: "length (matrix_new_state released_2x2) = col_size kbd_2x2"
    by (simp add: released_2x2_def kbd_2x2_def)
  have two: "[0 ..< col_size kbd_2x2] = [0, 1]"
    by (simp add: kbd_2x2_def upt_rec)
  have "\<exists>c < col_size kbd_2x2. one_key c AND 255 \<noteq> 0"
    by (rule exI [of _ 0]) (simp add: kbd_2x2_def one_key_def)
  then have "fst (input_kbd_matrix_scan kbd_2x2 one_key released_2x2) = True"
    using scan_snapshot [OF h, of one_key, THEN conjunct2, THEN conjunct2, THEN conjunct1]
    by simp
  moreover have "matrix_new_state (snd (input_kbd_matrix_scan kbd_2x2 one_key released_2x2))
      = [1, 0]"
    using scan_snapshot [OF h, of one_key, THEN conjunct1] by (simp add: two one_key_def)
  then have "snd (input_kbd_matrix_scan kbd_2x2 one_key released_2x2)
      = released_2x2\<lparr>matrix_new_state := [1, 0]\<rparr>"
    using scan_snapshot [OF h, of one_key, THEN conjunct2, THEN conjunct2, THEN conjunct2]
    by metis
  ultimately show ?thesis
    using h by (simp add: prod_eq_iff)
qed

section \<open>Polling loop: the sleep between two cycles\<close>

lemma clamp_word:
  fixes pp e :: u32
  assumes "1000 \<le> pp"
  defines "w0 \<equiv> pp - e"
  defines "w1 \<equiv> (if w0 < 1000 then 1000 else w0)"
  defines "w \<equiv> (if pp < w1 then pp else w1)"
  shows "1000 \<le> w" and "w \<le> pp" and "pp < e \<Longrightarrow> w = pp" and "pp < w0 \<Longrightarrow> w = pp"
    and "e \<le> pp \<Longrightarrow> pp - e < 1000 \<Longrightarrow> w = 1000"
    and "e \<le> pp \<Longrightarrow> 1000 \<le> pp - e \<Longrightarrow> w = pp - e"
  using assms by (auto simp: w_def w1_def w0_def; unat_arith)+

text \<open>
  The sleep where the poll period is at least one millisecond: it is at least one
  millisecond and at most the poll period. When the processing time exceeds the poll
  period the unsigned subtraction wraps and the full poll period is slept; when the
  processing time leaves less than one millisecond of the period, one millisecond is
  slept; otherwise the rest of the period.
\<close>

lemma wait_period_bounds:
  assumes "USEC_PER_MSEC \<le> poll_period_us cfg"
  shows "USEC_PER_MSEC \<le> wait_period_us cfg s c
       \<and> wait_period_us cfg s c \<le> poll_period_us cfg
       \<and> wait_period_us cfg s c \<noteq> 0
       \<and> (poll_period_us cfg < k_cyc_to_us_floor32 cfg (c - s)
            \<longrightarrow> wait_period_us cfg s c = poll_period_us cfg)
       \<and> (poll_period_us cfg < poll_period_us cfg - k_cyc_to_us_floor32 cfg (c - s)
            \<longrightarrow> wait_period_us cfg s c = poll_period_us cfg)
       \<and> (k_cyc_to_us_floor32 cfg (c - s) \<le> poll_period_us cfg
            \<and> poll_period_us cfg - k_cyc_to_us_floor32 cfg (c - s) < USEC_PER_MSEC
            \<longrightarrow> wait_period_us cfg s c = USEC_PER_MSEC)
       \<and> (k_cyc_to_us_floor32 cfg (c - s) \<le> poll_period_us cfg
            \<and> USEC_PER_MSEC \<le> poll_period_us cfg - k_cyc_to_us_floor32 cfg (c - s)
            \<longrightarrow> wait_period_us cfg s c = poll_period_us cfg - k_cyc_to_us_floor32 cfg (c - s))"
proof -
  let ?pp = "poll_period_us cfg" and ?e = "k_cyc_to_us_floor32 cfg (c - s)"
  have pp: "1000 \<le> ?pp" using assms by (simp add: USEC_PER_MSEC_def)
  have w: "wait_period_us cfg s c
      = (if ?pp < (if ?pp - ?e < 1000 then 1000 else ?pp - ?e) then ?pp
         else (if ?pp - ?e < 1000 then 1000 else ?pp - ?e))"
    by (simp add: wait_period_us_def USEC_PER_MSEC_def Let_def)
  have lo: "1000 \<le> wait_period_us cfg s c"
    unfolding w by (rule clamp_word(1) [OF pp])
  have hi: "wait_period_us cfg s c \<le> ?pp"
    unfolding w by (rule clamp_word(2) [OF pp])
  have over: "?pp < ?e \<Longrightarrow> wait_period_us cfg s c = ?pp"
    unfolding w by (rule clamp_word(3) [OF pp])
  have wrap: "?pp < ?pp - ?e \<Longrightarrow> wait_period_us cfg s c = ?pp"
    unfolding w by (rule clamp_word(4) [OF pp])
  have floor: "?e \<le> ?pp \<Longrightarrow> ?pp - ?e < 1000 \<Longrightarrow> wait_period_us cfg s c = 1000"
    unfolding w by (rule clamp_word(5) [OF pp])
  have plain: "?e \<le> ?pp \<Longrightarrow> 1000 \<le> ?pp - ?e \<Longrightarrow> wait_period_us cfg s c = ?pp - ?e"
    unfolding w by (rule clamp_word(6) [OF pp])
  have nz: "wait_period_us cfg s c \<noteq> 0"
    using lo by auto
  show ?thesis
    using lo hi over wrap nz floor plain by (simp add: USEC_PER_MSEC_def)
qed

text \<open>The cap on the sleep is taken exactly when the processing time exceeds the poll
  period; whatever the poll period, the sleep never exceeds it.\<close>

lemma cap_on_overrun: "((pp :: u32) < pp - e) = (pp < e)"
  by unat_arith

lemma wait_period_le: "wait_period_us cfg s c \<le> poll_period_us cfg"
  by (simp add: wait_period_us_def Let_def not_less)

text \<open>
  C2 on the code. With a poll period of 500 us and a cycle whose processing took 600 us
  (more than the poll period, on a 1 MHz counter) the sleep is 500 us: less than the one
  millisecond that the comment "Wait for at least 1ms" and the claim promise. The
  subtraction wraps, so the floor of one millisecond is not taken, and the cap sets the
  sleep to the poll period. With a poll period of 5 ms a cycle of 6 ms is followed by a
  sleep of the full 5 ms for the same reason.
\<close>

theorem wait_period_below_one_ms:
  "poll_period_us kbd_fast_poll = 500
   \<and> k_cyc_to_us_floor32 kbd_fast_poll (600 - 0) = 600
   \<and> wait_period_us kbd_fast_poll 0 600 = 500
   \<and> wait_period_us kbd_fast_poll 0 600 < USEC_PER_MSEC
   \<and> wait_period_us kbd_2x2 0 6000 = 5000"
  by (simp add: wait_period_us_def kbd_fast_poll_def kbd_2x2_def cyc_1MHz_def USEC_PER_MSEC_def)

section \<open>Ghosting detector: which snapshots are vetoed\<close>

lemma two_bits_double:
  "(\<exists>i j. i < j \<and> bit (2 * n :: nat) i \<and> bit (2 * n) j) = (\<exists>i j. i < j \<and> bit n i \<and> bit n j)"
proof
  assume "\<exists>i j. i < j \<and> bit (2 * n) i \<and> bit (2 * n) j"
  then obtain i j where ij: "i < j" "bit (2 * n) i" "bit (2 * n) j" by blast
  then have "0 < i" "bit n (i - 1)" "bit n (j - 1)"
    by (auto simp: bit_double_iff)
  with ij(1) have "i - 1 < j - 1" by simp
  with \<open>bit n (i - 1)\<close> \<open>bit n (j - 1)\<close> show "\<exists>i j. i < j \<and> bit n i \<and> bit n j" by blast
next
  assume "\<exists>i j. i < j \<and> bit n i \<and> bit n j"
  then obtain i j where ij: "i < j" "bit n i" "bit n j" by blast
  then have "Suc i < Suc j" "bit (2 * n) (Suc i)" "bit (2 * n) (Suc j)"
    by (simp_all add: bit_double_iff)
  then show "\<exists>i j. i < j \<and> bit (2 * n) i \<and> bit (2 * n) j" by blast
qed

lemma two_bits_Suc_double:
  "(\<exists>i j. i < j \<and> bit (Suc (2 * n)) i \<and> bit (Suc (2 * n)) j) = (n \<noteq> 0)"
proof
  assume "\<exists>i j. i < j \<and> bit (Suc (2 * n)) i \<and> bit (Suc (2 * n)) j"
  then obtain i j where ij: "i < j" "bit (Suc (2 * n)) j" by blast
  then have "0 < j" by simp
  with ij(2) have "bit n (j - 1)" by (cases j) (simp_all add: bit_Suc)
  then show "n \<noteq> 0" by (rule contrapos_pn) simp
next
  assume "n \<noteq> 0"
  then obtain k where "bit n k" by (auto simp: bit_eq_iff)
  then have "bit (Suc (2 * n)) (Suc k)" by (simp add: bit_Suc)
  moreover have "bit (Suc (2 * n)) 0" by (simp add: bit_0)
  ultimately show "\<exists>i j. i < j \<and> bit (Suc (2 * n)) i \<and> bit (Suc (2 * n)) j"
    by (meson zero_less_Suc)
qed

text \<open>On natural numbers, \<open>n AND (n - 1)\<close> is nonzero exactly when two different bits of
  \<open>n\<close> are set: by induction on the binary representation.\<close>

lemma and_pred_nat:
  "((n :: nat) AND (n - 1) \<noteq> 0) = (\<exists>i j. i < j \<and> bit n i \<and> bit n j)"
proof (induction n rule: nat_bit_induct)
  case zero
  then show ?case by simp
next
  case (even n)
  from \<open>0 < n\<close> have p: "2 * n - 1 = Suc (2 * (n - 1))" by simp
  have "(2 * n) AND (2 * n - 1) = 2 * (n AND (n - 1))"
    unfolding p by (simp add: and_nat_rec [of "2 * n"])
  then show ?case
    using even by (simp add: two_bits_double)
next
  case (odd n)
  have "Suc (2 * n) AND (Suc (2 * n) - 1) = 2 * n"
    by (simp add: and_nat_rec [of "Suc (2 * n)"])
  then show ?case
    by (simp add: two_bits_Suc_double del: One_nat_def)
qed

lemma multi_bit_iff:
  "multi_bit w = (\<exists>i j. i < j \<and> bit w i \<and> bit w j)"
proof (cases "w = 0")
  case True
  then show ?thesis by (simp add: multi_bit_def)
next
  case False
  then have "unat (w - 1) = unat w - 1"
    by (simp add: unat_minus_one)
  then have "unat (w AND (w - 1)) = unat w AND (unat w - 1)"
    by (simp add: unsigned_and_eq)
  moreover have "(w AND (w - 1) \<noteq> 0) = (unat (w AND (w - 1)) \<noteq> 0)"
    by (simp add: unat_eq_0)
  ultimately have "multi_bit w = (unat w AND (unat w - 1) \<noteq> 0)"
    by (simp add: multi_bit_def)
  then have "multi_bit w = (\<exists>i j. i < j \<and> bit (unat w) i \<and> bit (unat w) j)"
    by (simp only: and_pred_nat)
  then show ?thesis
    by (simp add: bit_unsigned_iff)
qed

lemma multi_bit_zero: "\<not> multi_bit 0"
  by (simp add: multi_bit_def)

lemma ghosting_inner_iff:
  "ghosting_inner state c cs = (\<exists>c_next \<in> set cs. multi_bit (state ! c AND state ! c_next))"
  by (induction cs) auto

lemma ghosting_noskip_iff:
  "ghosting_outer_noskip state n cs
     = (\<exists>c \<in> set cs. \<exists>c_next. c < c_next \<and> c_next < n
           \<and> multi_bit (state ! c AND state ! c_next))"
  by (induction cs) (auto simp: ghosting_inner_iff)

lemma ghosting_skip_harmless:
  "ghosting_outer state n cs = ghosting_outer_noskip state n cs"
  by (induction cs) (auto simp: ghosting_inner_iff multi_bit_zero)

text \<open>
  C3. The detector answers true exactly when there are columns \<open>c < c_next < col_size\<close>
  whose common rows \<open>snapshot[c] & snapshot[c_next]\<close> pass the test
  \<open>common & (common - 1) != 0\<close>, which is to say have two different bits set. Leaving
  out the \<open>continue\<close> on an empty column gives the same answer. The inner loop stops at
  a hit: the columns that would follow are not consulted.
\<close>

theorem ghosting_pairs:
  "input_kbd_matrix_ghosting cfg st
     = (\<exists>c c_next. c < c_next \<and> c_next < col_size cfg
          \<and> multi_bit (matrix_new_state st ! c AND matrix_new_state st ! c_next))
   \<and> input_kbd_matrix_ghosting cfg st
     = (\<exists>c c_next. c < c_next \<and> c_next < col_size cfg
          \<and> (\<exists>i j. i < j \<and> bit (matrix_new_state st ! c AND matrix_new_state st ! c_next) i
                         \<and> bit (matrix_new_state st ! c AND matrix_new_state st ! c_next) j))
   \<and> input_kbd_matrix_ghosting cfg st
     = ghosting_outer_noskip (matrix_new_state st) (col_size cfg) [0 ..< col_size cfg]
   \<and> (\<forall>c c_next cs. multi_bit (matrix_new_state st ! c AND matrix_new_state st ! c_next)
         \<longrightarrow> ghosting_inner (matrix_new_state st) c (c_next # cs)
             = ghosting_inner (matrix_new_state st) c [c_next])"
proof -
  have a: "input_kbd_matrix_ghosting cfg st
     = (\<exists>c c_next. c < c_next \<and> c_next < col_size cfg
          \<and> multi_bit (matrix_new_state st ! c AND matrix_new_state st ! c_next))"
    unfolding input_kbd_matrix_ghosting_def ghosting_skip_harmless ghosting_noskip_iff
    by auto
  have b: "input_kbd_matrix_ghosting cfg st
     = ghosting_outer_noskip (matrix_new_state st) (col_size cfg) [0 ..< col_size cfg]"
    by (simp add: input_kbd_matrix_ghosting_def ghosting_skip_harmless)
  show ?thesis
    using a b by (simp add: multi_bit_iff [symmetric])
qed

text \<open>Rows 0 and 1 read in both columns: a block, vetoed.\<close>

theorem ghosting_pairs_witness:
  "multi_bit (matrix_new_state blocked_2x2 ! 0 AND matrix_new_state blocked_2x2 ! 1)
   \<and> input_kbd_matrix_ghosting kbd_2x2 blocked_2x2
   \<and> ghosting_inner (matrix_new_state blocked_2x2) 0 [1, 2, 3]
       = ghosting_inner (matrix_new_state blocked_2x2) 0 [1]"
proof -
  have m: "multi_bit (matrix_new_state blocked_2x2 ! 0 AND matrix_new_state blocked_2x2 ! 1)"
    by (simp add: blocked_2x2_def released_2x2_def multi_bit_def)
  have "\<exists>c c_next. c < c_next \<and> c_next < col_size kbd_2x2
      \<and> multi_bit (matrix_new_state blocked_2x2 ! c AND matrix_new_state blocked_2x2 ! c_next)"
    using m by (intro exI [of _ 0] exI [of _ 1]) (simp add: kbd_2x2_def)
  then have "input_kbd_matrix_ghosting kbd_2x2 blocked_2x2"
    using ghosting_pairs [of kbd_2x2 blocked_2x2, THEN conjunct1] by simp
  moreover have "ghosting_inner (matrix_new_state blocked_2x2) 0 [1, 2, 3]
       = ghosting_inner (matrix_new_state blocked_2x2) 0 [1]"
    using ghosting_pairs [of kbd_2x2 blocked_2x2] m by blast
  ultimately show ?thesis using m by simp
qed

section \<open>A cycle vetoed by the ghosting check\<close>

lemma scan_cursor:
  "input_kbd_matrix_scan cfg rr (st\<lparr>scan_cycles_idx := x\<rparr>)
     = (fst (input_kbd_matrix_scan cfg rr st),
        (snd (input_kbd_matrix_scan cfg rr st))\<lparr>scan_cycles_idx := x\<rparr>)"
  by (simp add: scan_closed)

lemma ghosting_cursor:
  "input_kbd_matrix_ghosting cfg (st\<lparr>scan_cycles_idx := x\<rparr>) = input_kbd_matrix_ghosting cfg st"
  by (simp add: input_kbd_matrix_ghosting_def)

lemma check_key_events_vetoed:
  assumes "ghostkey_check cfg"
      and "input_kbd_matrix_ghosting cfg (snd (input_kbd_matrix_scan cfg rr st))"
  shows "input_kbd_matrix_check_key_events cfg rr now st
      = (fst (input_kbd_matrix_scan cfg rr st),
         (snd (input_kbd_matrix_scan cfg rr st))
           \<lparr>scan_cycles_idx := advance_cursor cfg (scan_cycles_idx st)\<rparr>)"
  using assms
  by (simp add: input_kbd_matrix_check_key_events_def scan_cursor ghosting_cursor)

text \<open>
  C4. When the ghosting check is enabled and the snapshot of this cycle is reported as
  ghosting, the cycle returns the raw-activity flag of its scan (true exactly when some
  column read a nonzero row mask) and leaves previous, unstable and stable state, the
  per-key slot numbers and the ring of timestamps as they were; nothing is reported.
\<close>

theorem ghost_veto_skips_update:
  assumes "ghostkey_check cfg"
      and "input_kbd_matrix_ghosting cfg (snd (input_kbd_matrix_scan cfg rr st))"
  shows "fst (input_kbd_matrix_check_key_events cfg rr now st)
           = fst (input_kbd_matrix_scan cfg rr st)
       \<and> fst (input_kbd_matrix_check_key_events cfg rr now st)
           = (\<exists>c < col_size cfg. rr c AND 255 \<noteq> 0)
       \<and> matrix_previous_state (snd (input_kbd_matrix_check_key_events cfg rr now st))
           = matrix_previous_state st
       \<and> matrix_unstable_state (snd (input_kbd_matrix_check_key_events cfg rr now st))
           = matrix_unstable_state st
       \<and> matrix_stable_state (snd (input_kbd_matrix_check_key_events cfg rr now st))
           = matrix_stable_state st
       \<and> scan_cycle_idx (snd (input_kbd_matrix_check_key_events cfg rr now st))
           = scan_cycle_idx st
       \<and> scan_clk_cycle (snd (input_kbd_matrix_check_key_events cfg rr now st))
           = scan_clk_cycle st
       \<and> reported (snd (input_kbd_matrix_check_key_events cfg rr now st))
           = reported st"
  unfolding check_key_events_vetoed [OF assms]
  by (simp add: scan_flag) (simp add: scan_closed)

text \<open>Three keys of a 2x2 block pressed (the fourth reads as pressed too): the cycle
  reports activity and changes only the snapshot and the cursor.\<close>

theorem ghost_veto_skips_update_witness:
  "ghostkey_check kbd_2x2
   \<and> input_kbd_matrix_ghosting kbd_2x2
        (snd (input_kbd_matrix_scan kbd_2x2 ghost_block released_2x2))
   \<and> fst (input_kbd_matrix_check_key_events kbd_2x2 ghost_block 1000 released_2x2)
   \<and> matrix_stable_state (snd (input_kbd_matrix_check_key_events kbd_2x2 ghost_block 1000 released_2x2))
       = [0, 0]
   \<and> reported (snd (input_kbd_matrix_check_key_events kbd_2x2 ghost_block 1000 released_2x2))
       = []"
proof -
  have h1: "ghostkey_check kbd_2x2"
    by (simp add: kbd_2x2_def)
  have h2: "input_kbd_matrix_ghosting kbd_2x2
        (snd (input_kbd_matrix_scan kbd_2x2 ghost_block released_2x2))"
    by (simp add: input_kbd_matrix_scan_def input_kbd_matrix_ghosting_def scan_col_def
        kbd_2x2_def released_2x2_def ghost_block_def multi_bit_def upt_rec)
  have "\<exists>c < col_size kbd_2x2. ghost_block c AND 255 \<noteq> 0"
    by (rule exI [of _ 0]) (simp add: kbd_2x2_def ghost_block_def)
  moreover note r = ghost_veto_skips_update [OF h1 h2, of 1000]
  ultimately have flag: "fst (input_kbd_matrix_check_key_events kbd_2x2 ghost_block 1000 released_2x2)"
    by blast
  have "matrix_stable_state released_2x2 = [0, 0]" and "reported released_2x2 = []"
    by (simp_all add: released_2x2_def)
  with r flag h1 h2 show ?thesis
    by simp
qed

section \<open>Debounce engine: what one update does\<close>

lemma update_state_split:
  "input_kbd_matrix_update_state cfg now st
     = fold (debounce_col cfg now) [0 ..< col_size cfg] (gather_state cfg now st)"
  by (simp add: input_kbd_matrix_update_state_def gather_state_def Let_def)

lemma key_debt_cong:
  "scan_cycle_idx t = scan_cycle_idx s \<Longrightarrow> scan_clk_cycle t = scan_clk_cycle s
   \<Longrightarrow> key_debt cfg now t c r = key_debt cfg now s c r"
  by (simp add: key_debt_def)

lemma BIT8_and: "BIT8 m AND BIT8 k = (if m = k then BIT8 k else 0)"
  by (rule bit_word_eqI) (auto simp: BIT8_def bit_simps)

lemma BIT8_high: "8 \<le> r \<Longrightarrow> BIT8 r = 0"
  by (rule bit_word_eqI) (auto simp: BIT8_def bit_simps)

lemma BIT8_nonzero: "x AND BIT8 r \<noteq> 0 \<Longrightarrow> r < 8"
  by (rule ccontr) (simp add: BIT8_high)

lemma debounce_key_frame:
  "matrix_new_state (debounce_key cfg now c d r t) = matrix_new_state t"
  "matrix_previous_state (debounce_key cfg now c d r t) = matrix_previous_state t"
  "scan_cycle_idx (debounce_key cfg now c d r t) = scan_cycle_idx t"
  "scan_clk_cycle (debounce_key cfg now c d r t) = scan_clk_cycle t"
  "scan_cycles_idx (debounce_key cfg now c d r t) = scan_cycles_idx t"
  "length (matrix_stable_state (debounce_key cfg now c d r t)) = length (matrix_stable_state t)"
  "length (matrix_unstable_state (debounce_key cfg now c d r t)) = length (matrix_unstable_state t)"
  by (simp_all add: debounce_key_def Let_def)

lemma debounce_key_other:
  "c' \<noteq> c \<Longrightarrow> matrix_stable_state (debounce_key cfg now c d r t) ! c' = matrix_stable_state t ! c'"
  "c' \<noteq> c \<Longrightarrow> matrix_unstable_state (debounce_key cfg now c d r t) ! c' = matrix_unstable_state t ! c'"
  by (simp_all add: debounce_key_def Let_def)

lemma debounce_key_stable:
  "c < length (matrix_stable_state t) \<Longrightarrow>
   matrix_stable_state (debounce_key cfg now c d r t) ! c
     = (if key_conf cfg now t c d r then matrix_stable_state t ! c XOR BIT8 r
        else matrix_stable_state t ! c)"
  by (simp add: debounce_key_def Let_def key_conf_def key_due_def key_threshold_def)

lemma debounce_key_reported:
  "reported (debounce_key cfg now c d r t)
     = reported t @ (if key_conf cfg now t c d r then [(c, r, matrix_new_state t ! c AND BIT8 r)] else [])"
  by (simp add: debounce_key_def Let_def key_conf_def key_due_def key_threshold_def)

lemma debounce_key_unstable:
  "c < length (matrix_unstable_state t) \<Longrightarrow>
   matrix_unstable_state (debounce_key cfg now c d r t) ! c
     = (if key_due cfg now t c d r
        then matrix_unstable_state t ! c AND NOT (matrix_new_state t ! c AND BIT8 r)
        else matrix_unstable_state t ! c)"
  by (simp add: debounce_key_def Let_def key_due_def key_threshold_def)

lemma key_conf_cong:
  "matrix_new_state t = matrix_new_state s \<Longrightarrow> scan_cycle_idx t = scan_cycle_idx s
   \<Longrightarrow> scan_clk_cycle t = scan_clk_cycle s
   \<Longrightarrow> matrix_stable_state t ! c AND BIT8 r = matrix_stable_state s ! c AND BIT8 r
   \<Longrightarrow> key_conf cfg now t c d r = key_conf cfg now s c d r"
  by (simp add: key_conf_def key_due_def key_threshold_def key_debt_def)

lemma debounce_rows_frame:
  "matrix_new_state (fold (debounce_key cfg now c d) [0 ..< m] s) = matrix_new_state s
   \<and> matrix_previous_state (fold (debounce_key cfg now c d) [0 ..< m] s) = matrix_previous_state s
   \<and> scan_cycle_idx (fold (debounce_key cfg now c d) [0 ..< m] s) = scan_cycle_idx s
   \<and> scan_clk_cycle (fold (debounce_key cfg now c d) [0 ..< m] s) = scan_clk_cycle s
   \<and> scan_cycles_idx (fold (debounce_key cfg now c d) [0 ..< m] s) = scan_cycles_idx s
   \<and> length (matrix_stable_state (fold (debounce_key cfg now c d) [0 ..< m] s))
        = length (matrix_stable_state s)
   \<and> length (matrix_unstable_state (fold (debounce_key cfg now c d) [0 ..< m] s))
        = length (matrix_unstable_state s)"
  by (induction m) (simp_all add: debounce_key_frame)

lemma debounce_rows_other:
  "c' \<noteq> c \<Longrightarrow>
   matrix_stable_state (fold (debounce_key cfg now c d) [0 ..< m] s) ! c' = matrix_stable_state s ! c'
   \<and> matrix_unstable_state (fold (debounce_key cfg now c d) [0 ..< m] s) ! c'
        = matrix_unstable_state s ! c'"
  by (induction m) (simp_all add: debounce_key_other)

lemma xor_BIT8_and:
  "(x XOR BIT8 m) AND BIT8 k = (if m = k then (x AND BIT8 k) XOR BIT8 k else x AND BIT8 k)"
  by (simp add: bit.conj_xor_distrib2 BIT8_and)

lemma debounce_rows_stable:
  assumes "c < length (matrix_stable_state s)"
  shows "(\<forall>k. matrix_stable_state (fold (debounce_key cfg now c d) [0 ..< m] s) ! c AND BIT8 k
            = (if k < m \<and> key_conf cfg now s c d k
               then (matrix_stable_state s ! c AND BIT8 k) XOR BIT8 k
               else matrix_stable_state s ! c AND BIT8 k))
       \<and> reported (fold (debounce_key cfg now c d) [0 ..< m] s)
            = reported s @ map (\<lambda>r. (c, r, matrix_new_state s ! c AND BIT8 r))
                             (filter (key_conf cfg now s c d) [0 ..< m])"
proof (induction m)
  case 0
  show ?case by simp
next
  case (Suc m)
  let ?t = "fold (debounce_key cfg now c d) [0 ..< m] s"
  note fr = debounce_rows_frame [of cfg now c d m s]
  from Suc have st: "\<And>k. matrix_stable_state ?t ! c AND BIT8 k
            = (if k < m \<and> key_conf cfg now s c d k
               then (matrix_stable_state s ! c AND BIT8 k) XOR BIT8 k
               else matrix_stable_state s ! c AND BIT8 k)"
    and rp: "reported ?t = reported s @ map (\<lambda>r. (c, r, matrix_new_state s ! c AND BIT8 r))
                             (filter (key_conf cfg now s c d) [0 ..< m])"
    by blast+
  have same: "matrix_stable_state ?t ! c AND BIT8 m = matrix_stable_state s ! c AND BIT8 m"
    using st [of m] by simp
  have conf: "key_conf cfg now ?t c d m = key_conf cfg now s c d m"
    using fr same by (intro key_conf_cong) simp_all
  have len: "c < length (matrix_stable_state ?t)"
    using fr assms by simp
  have step: "fold (debounce_key cfg now c d) [0 ..< Suc m] s = debounce_key cfg now c d m ?t"
    by simp
  have "matrix_stable_state (debounce_key cfg now c d m ?t) ! c AND BIT8 k
            = (if k < Suc m \<and> key_conf cfg now s c d k
               then (matrix_stable_state s ! c AND BIT8 k) XOR BIT8 k
               else matrix_stable_state s ! c AND BIT8 k)" for k
    unfolding debounce_key_stable [OF len] conf
    using st [of k] by (auto simp: xor_BIT8_and less_Suc_eq)
  moreover have "reported (debounce_key cfg now c d m ?t)
      = reported s @ map (\<lambda>r. (c, r, matrix_new_state s ! c AND BIT8 r))
                             (filter (key_conf cfg now s c d) [0 ..< Suc m])"
    unfolding debounce_key_reported conf using rp fr by simp
  ultimately show ?case
    unfolding step by blast
qed

lemma confirms_key_conf:
  "confirms cfg now t c r = key_conf cfg now t c (matrix_unstable_state t ! c) r"
  by (simp add: confirms_def window_closes_def key_conf_def)

lemma confirms_cong:
  "matrix_new_state t = matrix_new_state s \<Longrightarrow> scan_cycle_idx t = scan_cycle_idx s
   \<Longrightarrow> scan_clk_cycle t = scan_clk_cycle s
   \<Longrightarrow> matrix_stable_state t ! c = matrix_stable_state s ! c
   \<Longrightarrow> matrix_unstable_state t ! c = matrix_unstable_state s ! c
   \<Longrightarrow> confirms cfg now t c r = confirms cfg now s c r"
  by (simp add: confirms_def window_closes_def key_due_def key_threshold_def key_debt_def)

lemma col_reports_cong:
  "matrix_new_state t = matrix_new_state s \<Longrightarrow> scan_cycle_idx t = scan_cycle_idx s
   \<Longrightarrow> scan_clk_cycle t = scan_clk_cycle s
   \<Longrightarrow> matrix_stable_state t ! c = matrix_stable_state s ! c
   \<Longrightarrow> matrix_unstable_state t ! c = matrix_unstable_state s ! c
   \<Longrightarrow> col_reports cfg now t c = col_reports cfg now s c"
  unfolding col_reports_def
  by (simp add: confirms_cong [of t s c cfg now] cong: filter_cong)

lemma key_conf_no_deb: "\<not> key_conf cfg now t c 0 r"
  by (simp add: key_conf_def key_due_def)

lemma debounce_col_frame:
  "matrix_new_state (debounce_col cfg now c t) = matrix_new_state t
   \<and> matrix_previous_state (debounce_col cfg now c t) = matrix_previous_state t
   \<and> scan_cycle_idx (debounce_col cfg now c t) = scan_cycle_idx t
   \<and> scan_clk_cycle (debounce_col cfg now c t) = scan_clk_cycle t
   \<and> scan_cycles_idx (debounce_col cfg now c t) = scan_cycles_idx t
   \<and> length (matrix_stable_state (debounce_col cfg now c t)) = length (matrix_stable_state t)
   \<and> length (matrix_unstable_state (debounce_col cfg now c t)) = length (matrix_unstable_state t)"
  by (simp add: debounce_col_def Let_def debounce_rows_frame)

lemma debounce_col_other:
  "c' \<noteq> c \<Longrightarrow>
   matrix_stable_state (debounce_col cfg now c t) ! c' = matrix_stable_state t ! c'
   \<and> matrix_unstable_state (debounce_col cfg now c t) ! c' = matrix_unstable_state t ! c'"
  by (simp add: debounce_col_def Let_def debounce_rows_other)

lemma debounce_col_stable:
  assumes "c < length (matrix_stable_state t)"
  shows "matrix_stable_state (debounce_col cfg now c t) ! c AND BIT8 k
            = (if k < row_size cfg \<and> confirms cfg now t c k
               then (matrix_stable_state t ! c AND BIT8 k) XOR BIT8 k
               else matrix_stable_state t ! c AND BIT8 k)"
proof (cases "matrix_unstable_state t ! c = 0")
  case True
  then show ?thesis
    by (simp add: debounce_col_def confirms_key_conf key_conf_no_deb)
next
  case False
  then show ?thesis
    using debounce_rows_stable [OF assms, of cfg now "matrix_unstable_state t ! c" "row_size cfg"]
    by (simp add: debounce_col_def Let_def confirms_key_conf)
qed

lemma debounce_col_reported:
  assumes "c < length (matrix_stable_state t)"
  shows "reported (debounce_col cfg now c t) = reported t @ col_reports cfg now t c"
proof (cases "matrix_unstable_state t ! c = 0")
  case True
  then have "filter (confirms cfg now t c) [0 ..< row_size cfg] = []"
    by (simp add: confirms_key_conf key_conf_no_deb)
  with True show ?thesis
    by (simp add: debounce_col_def col_reports_def)
next
  case False
  have "confirms cfg now t c = key_conf cfg now t c (matrix_unstable_state t ! c)"
    by (rule ext) (simp add: confirms_key_conf)
  with False show ?thesis
    using debounce_rows_stable [OF assms, of cfg now "matrix_unstable_state t ! c" "row_size cfg"]
    by (simp add: debounce_col_def Let_def col_reports_def)
qed

lemma debounce_cols_frame:
  "matrix_new_state (fold (debounce_col cfg now) [0 ..< n] s) = matrix_new_state s
   \<and> matrix_previous_state (fold (debounce_col cfg now) [0 ..< n] s) = matrix_previous_state s
   \<and> scan_cycle_idx (fold (debounce_col cfg now) [0 ..< n] s) = scan_cycle_idx s
   \<and> scan_clk_cycle (fold (debounce_col cfg now) [0 ..< n] s) = scan_clk_cycle s
   \<and> scan_cycles_idx (fold (debounce_col cfg now) [0 ..< n] s) = scan_cycles_idx s
   \<and> length (matrix_stable_state (fold (debounce_col cfg now) [0 ..< n] s))
        = length (matrix_stable_state s)
   \<and> length (matrix_unstable_state (fold (debounce_col cfg now) [0 ..< n] s))
        = length (matrix_unstable_state s)"
  by (induction n) (simp_all add: debounce_col_frame)

lemma debounce_cols_later:
  "n \<le> c \<Longrightarrow>
   matrix_stable_state (fold (debounce_col cfg now) [0 ..< n] s) ! c = matrix_stable_state s ! c
   \<and> matrix_unstable_state (fold (debounce_col cfg now) [0 ..< n] s) ! c
        = matrix_unstable_state s ! c"
  by (induction n) (simp_all add: debounce_col_other)

lemma debounce_cols_stable:
  assumes "n \<le> length (matrix_stable_state s)"
  shows "(\<forall>c < n. \<forall>k. matrix_stable_state (fold (debounce_col cfg now) [0 ..< n] s) ! c AND BIT8 k
            = (if k < row_size cfg \<and> confirms cfg now s c k
               then (matrix_stable_state s ! c AND BIT8 k) XOR BIT8 k
               else matrix_stable_state s ! c AND BIT8 k))
       \<and> reported (fold (debounce_col cfg now) [0 ..< n] s)
            = reported s @ concat (map (col_reports cfg now s) [0 ..< n])"
  using assms
proof (induction n)
  case 0
  show ?case by simp
next
  case (Suc n)
  let ?t = "fold (debounce_col cfg now) [0 ..< n] s"
  note fr = debounce_cols_frame [of cfg now n s]
  note lt = debounce_cols_later [of n n cfg now s, simplified]
  from Suc have st: "\<And>c k. c < n \<Longrightarrow> matrix_stable_state ?t ! c AND BIT8 k
            = (if k < row_size cfg \<and> confirms cfg now s c k
               then (matrix_stable_state s ! c AND BIT8 k) XOR BIT8 k
               else matrix_stable_state s ! c AND BIT8 k)"
    and rp: "reported ?t = reported s @ concat (map (col_reports cfg now s) [0 ..< n])"
    by simp_all
  have len: "n < length (matrix_stable_state ?t)"
    using fr Suc.prems by simp
  have conf: "confirms cfg now ?t n k = confirms cfg now s n k" for k
    using fr lt by (intro confirms_cong) simp_all
  have reps: "col_reports cfg now ?t n = col_reports cfg now s n"
    using fr lt by (intro col_reports_cong) simp_all
  have step: "fold (debounce_col cfg now) [0 ..< Suc n] s = debounce_col cfg now n ?t"
    by simp
  have "matrix_stable_state (debounce_col cfg now n ?t) ! c AND BIT8 k
            = (if k < row_size cfg \<and> confirms cfg now s c k
               then (matrix_stable_state s ! c AND BIT8 k) XOR BIT8 k
               else matrix_stable_state s ! c AND BIT8 k)" if "c < Suc n" for c k
  proof (cases "c = n")
    case True
    show ?thesis
      unfolding True debounce_col_stable [OF len] conf using lt by simp
  next
    case False
    with that have "c < n" by simp
    then show ?thesis
      using debounce_col_other [of c n cfg now ?t] False st [of c k] by simp
  qed
  moreover have "reported (debounce_col cfg now n ?t)
      = reported s @ concat (map (col_reports cfg now s) [0 ..< Suc n])"
    unfolding debounce_col_reported [OF len] reps using rp by simp
  ultimately show ?case
    unfolding step by blast
qed

lemma gather_col_frame:
  "matrix_new_state (gather_col cfg c t) = matrix_new_state t
   \<and> matrix_stable_state (gather_col cfg c t) = matrix_stable_state t
   \<and> reported (gather_col cfg c t) = reported t
   \<and> scan_clk_cycle (gather_col cfg c t) = scan_clk_cycle t
   \<and> scan_cycles_idx (gather_col cfg c t) = scan_cycles_idx t
   \<and> length (matrix_unstable_state (gather_col cfg c t)) = length (matrix_unstable_state t)
   \<and> length (matrix_previous_state (gather_col cfg c t)) = length (matrix_previous_state t)"
  by (simp add: gather_col_def Let_def)

lemma gather_cols_frame:
  "matrix_new_state (fold (gather_col cfg) [0 ..< n] t) = matrix_new_state t
   \<and> matrix_stable_state (fold (gather_col cfg) [0 ..< n] t) = matrix_stable_state t
   \<and> reported (fold (gather_col cfg) [0 ..< n] t) = reported t
   \<and> scan_clk_cycle (fold (gather_col cfg) [0 ..< n] t) = scan_clk_cycle t
   \<and> scan_cycles_idx (fold (gather_col cfg) [0 ..< n] t) = scan_cycles_idx t
   \<and> length (matrix_unstable_state (fold (gather_col cfg) [0 ..< n] t))
        = length (matrix_unstable_state t)
   \<and> length (matrix_previous_state (fold (gather_col cfg) [0 ..< n] t))
        = length (matrix_previous_state t)"
  by (induction n) (simp_all add: gather_col_frame)

lemma gather_state_frame:
  "matrix_new_state (gather_state cfg now st) = matrix_new_state st"
  "matrix_stable_state (gather_state cfg now st) = matrix_stable_state st"
  "reported (gather_state cfg now st) = reported st"
  "scan_clk_cycle (gather_state cfg now st) = (scan_clk_cycle st)[unat (scan_cycles_idx st) := now]"
  "scan_cycles_idx (gather_state cfg now st) = scan_cycles_idx st"
  "length (matrix_unstable_state (gather_state cfg now st)) = length (matrix_unstable_state st)"
  "length (matrix_previous_state (gather_state cfg now st)) = length (matrix_previous_state st)"
  by (simp_all add: gather_state_def gather_cols_frame)

lemma update_state_stable:
  assumes "col_size cfg \<le> length (matrix_stable_state st)" and "c < col_size cfg"
  shows "matrix_stable_state (input_kbd_matrix_update_state cfg now st) ! c AND BIT8 k
            = (if k < row_size cfg \<and> confirms cfg now (gather_state cfg now st) c k
               then (matrix_stable_state st ! c AND BIT8 k) XOR BIT8 k
               else matrix_stable_state st ! c AND BIT8 k)"
  using debounce_cols_stable [of "col_size cfg" "gather_state cfg now st" cfg now] assms
  by (simp add: update_state_split gather_state_frame)

lemma update_state_reported:
  assumes "col_size cfg \<le> length (matrix_stable_state st)"
  shows "reported (input_kbd_matrix_update_state cfg now st)
     = reported st @ concat (map (col_reports cfg now (gather_state cfg now st)) [0 ..< col_size cfg])"
  using debounce_cols_stable [of "col_size cfg" "gather_state cfg now st" cfg now] assms
  by (simp add: update_state_split gather_state_frame)

lemma update_state_frame:
  "matrix_new_state (input_kbd_matrix_update_state cfg now st) = matrix_new_state st"
  "scan_cycles_idx (input_kbd_matrix_update_state cfg now st) = scan_cycles_idx st"
  "scan_clk_cycle (input_kbd_matrix_update_state cfg now st)
     = (scan_clk_cycle st)[unat (scan_cycles_idx st) := now]"
  "length (matrix_stable_state (input_kbd_matrix_update_state cfg now st))
     = length (matrix_stable_state st)"
  "c \<ge> col_size cfg \<Longrightarrow> matrix_stable_state (input_kbd_matrix_update_state cfg now st) ! c
     = matrix_stable_state st ! c"
  by (simp_all add: update_state_split debounce_cols_frame debounce_cols_later gather_state_frame)

lemma filter_eq_upt:
  "filter (\<lambda>x. P x \<and> x = r) [0 ..< m] = (if r < m \<and> P r then [r] else [])"
  by (induction m) (auto simp: less_Suc_eq)

lemma key_reports_col:
  "key_reports c r (col_reports cfg now g c')
     = (if c' = c \<and> r < row_size cfg \<and> confirms cfg now g c r
        then [(c, r, matrix_new_state g ! c AND BIT8 r)] else [])"
proof -
  have "filter (\<lambda>x. c' = c \<and> x = r) (filter (confirms cfg now g c') [0 ..< row_size cfg])
      = (if c' = c \<and> r < row_size cfg \<and> confirms cfg now g c r then [r] else [])"
    using filter_eq_upt [of "confirms cfg now g c" r "row_size cfg"]
    by (cases "c' = c") (simp_all add: conj_commute)
  then show ?thesis
    by (simp add: key_reports_def col_reports_def filter_map o_def)
qed

lemma key_reports_Nil: "key_reports c r [] = []"
  by (simp add: key_reports_def)

lemma key_reports_append: "key_reports c r (xs @ ys) = key_reports c r xs @ key_reports c r ys"
  by (simp add: key_reports_def)

lemma key_reports_cols:
  "key_reports c r (concat (map (col_reports cfg now g) [0 ..< n]))
     = (if c < n \<and> r < row_size cfg \<and> confirms cfg now g c r
        then [(c, r, matrix_new_state g ! c AND BIT8 r)] else [])"
  by (induction n) (auto simp: key_reports_append key_reports_col key_reports_Nil less_Suc_eq)

lemma cycle_reports_update:
  assumes "col_size cfg \<le> length (matrix_stable_state st)"
  shows "cycle_reports st (input_kbd_matrix_update_state cfg now st)
     = concat (map (col_reports cfg now (gather_state cfg now st)) [0 ..< col_size cfg])"
  by (simp add: cycle_reports_def update_state_reported [OF assms])

lemma confirms_row: "confirms cfg now g c r \<Longrightarrow> BIT8 r \<noteq> 0"
  by (auto simp: confirms_def window_closes_def key_due_def)

lemma raw_level_bit: "(x AND BIT8 r \<noteq> 0) = bit (x :: u8) r"
proof -
  have "x AND BIT8 r = (if bit x r then BIT8 r else 0)"
    by (rule bit_word_eqI) (auto simp: BIT8_def bit_simps)
  moreover have "bit x r \<Longrightarrow> BIT8 r \<noteq> 0"
    by (auto simp: BIT8_def bit_simps dest: bit_imp_le_length)
  ultimately show ?thesis by auto
qed

text \<open>
  C6. When the debounce window of key \<open>(c, r)\<close> closes in a cycle (the key is marked
  unstable after this snapshot's changes are gathered, and the elapsed time the code
  computes is at or above the threshold): if the raw level of the key equals its bit of
  the stable state, that bit is as before and no transition of the key is reported;
  otherwise the bit is flipped and the reports of the cycle hold exactly one transition
  of the key, \<open>(c, r, row_bit)\<close>, whose value is nonzero exactly when the raw level is
  pressed. Earlier reports are kept.
\<close>

theorem debounce_window_close:
  assumes "col_size cfg \<le> length (matrix_stable_state st)"
      and "c < col_size cfg" and "r < row_size cfg"
      and "window_closes cfg now (gather_state cfg now st) c r"
  shows "(matrix_stable_state st ! c AND BIT8 r = matrix_new_state st ! c AND BIT8 r \<longrightarrow>
            matrix_stable_state (input_kbd_matrix_update_state cfg now st) ! c AND BIT8 r
              = matrix_stable_state st ! c AND BIT8 r
          \<and> key_reports c r (cycle_reports st (input_kbd_matrix_update_state cfg now st)) = [])
       \<and> (matrix_stable_state st ! c AND BIT8 r \<noteq> matrix_new_state st ! c AND BIT8 r \<longrightarrow>
            matrix_stable_state (input_kbd_matrix_update_state cfg now st) ! c AND BIT8 r
              = (matrix_stable_state st ! c AND BIT8 r) XOR BIT8 r
          \<and> key_reports c r (cycle_reports st (input_kbd_matrix_update_state cfg now st))
              = [(c, r, matrix_new_state st ! c AND BIT8 r)])
       \<and> reported (input_kbd_matrix_update_state cfg now st)
            = reported st @ cycle_reports st (input_kbd_matrix_update_state cfg now st)
       \<and> (matrix_new_state st ! c AND BIT8 r \<noteq> 0) = bit (matrix_new_state st ! c) r"
proof -
  let ?g = "gather_state cfg now st"
  have conf: "confirms cfg now ?g c r
      = (matrix_stable_state st ! c AND BIT8 r \<noteq> matrix_new_state st ! c AND BIT8 r)"
    using assms(4) by (simp add: confirms_def gather_state_frame)
  have st: "matrix_stable_state (input_kbd_matrix_update_state cfg now st) ! c AND BIT8 r
      = (if confirms cfg now ?g c r then (matrix_stable_state st ! c AND BIT8 r) XOR BIT8 r
         else matrix_stable_state st ! c AND BIT8 r)"
    using update_state_stable [OF assms(1,2), of now r] assms(3) by simp
  have rp: "key_reports c r (cycle_reports st (input_kbd_matrix_update_state cfg now st))
      = (if confirms cfg now ?g c r then [(c, r, matrix_new_state st ! c AND BIT8 r)] else [])"
    unfolding cycle_reports_update [OF assms(1)] key_reports_cols
    using assms(2,3) by (simp add: gather_state_frame)
  have pre: "reported (input_kbd_matrix_update_state cfg now st)
            = reported st @ cycle_reports st (input_kbd_matrix_update_state cfg now st)"
    by (simp add: cycle_reports_def update_state_reported [OF assms(1)])
  show ?thesis
    using st rp pre by (simp add: conf raw_level_bit)
qed

lemma col_reports_keys:
  "e \<in> set (concat (map (col_reports cfg now g) [0 ..< n])) \<Longrightarrow> fst e < n \<and> fst (snd e) < row_size cfg"
  by (auto simp: col_reports_def)

lemma xor_flips: "((x :: u8) XOR b \<noteq> x) = (b \<noteq> 0)"
  by (metis bit.xor_cancel_right bit.xor_left_self xor.right_neutral xor.left_commute)

lemma update_state_flips:
  assumes "col_size cfg \<le> length (matrix_stable_state st)" and "c < col_size cfg"
  shows "key_reports c r (cycle_reports st (input_kbd_matrix_update_state cfg now st))
      = (if matrix_stable_state (input_kbd_matrix_update_state cfg now st) ! c AND BIT8 r
              \<noteq> matrix_stable_state st ! c AND BIT8 r
         then [(c, r, matrix_new_state st ! c AND BIT8 r)] else [])"
proof -
  let ?g = "gather_state cfg now st"
  have "(matrix_stable_state (input_kbd_matrix_update_state cfg now st) ! c AND BIT8 r
              \<noteq> matrix_stable_state st ! c AND BIT8 r)
      = (r < row_size cfg \<and> confirms cfg now ?g c r)"
    unfolding update_state_stable [OF assms, of now r]
    by (auto simp: xor_flips dest: confirms_row)
  then show ?thesis
    unfolding cycle_reports_update [OF assms(1)] key_reports_cols
    using assms(2) by (simp add: gather_state_frame)
qed

lemma cycle_reports_cong: "reported s = reported t \<Longrightarrow> cycle_reports s x = cycle_reports t x"
  by (simp add: cycle_reports_def)

lemma check_key_events_cases:
  "input_kbd_matrix_check_key_events cfg rr now st
     = (fst (input_kbd_matrix_scan cfg rr st),
        if ghostkey_check cfg \<and> input_kbd_matrix_ghosting cfg (snd (input_kbd_matrix_scan cfg rr st))
        then (snd (input_kbd_matrix_scan cfg rr st))
               \<lparr>scan_cycles_idx := advance_cursor cfg (scan_cycles_idx st)\<rparr>
        else input_kbd_matrix_update_state cfg now
               ((snd (input_kbd_matrix_scan cfg rr st))
                  \<lparr>scan_cycles_idx := advance_cursor cfg (scan_cycles_idx st)\<rparr>))"
  by (simp add: input_kbd_matrix_check_key_events_def scan_cursor ghosting_cursor)

lemma scanned_frame:
  "matrix_stable_state ((snd (input_kbd_matrix_scan cfg rr st))\<lparr>scan_cycles_idx := x\<rparr>)
     = matrix_stable_state st"
  "reported ((snd (input_kbd_matrix_scan cfg rr st))\<lparr>scan_cycles_idx := x\<rparr>) = reported st"
  "matrix_new_state ((snd (input_kbd_matrix_scan cfg rr st))\<lparr>scan_cycles_idx := x\<rparr>)
     = matrix_new_state (snd (input_kbd_matrix_scan cfg rr st))"
  "matrix_stable_state (snd (input_kbd_matrix_scan cfg rr st)) = matrix_stable_state st"
  "reported (snd (input_kbd_matrix_scan cfg rr st)) = reported st"
  by (simp_all add: scan_closed)

text \<open>
  C9. A scan leaves the stable state as it is, and so does a cycle vetoed by the ghosting
  check (which reports nothing). In every cycle the bit of key \<open>(c, r)\<close> in the stable
  state differs afterwards exactly when the cycle reported a transition of that key, and
  then it reported exactly one; every reported transition is of a key of the matrix.
  Entries beyond \<open>col_size\<close> are never written.
\<close>

theorem stable_state_flips_with_reports:
  assumes "col_size cfg \<le> length (matrix_stable_state st)"
  shows "matrix_stable_state (snd (input_kbd_matrix_scan cfg rr st)) = matrix_stable_state st
       \<and> reported (snd (input_kbd_matrix_check_key_events cfg rr now st))
           = reported st @ cycle_reports st (snd (input_kbd_matrix_check_key_events cfg rr now st))
       \<and> (\<forall>c < col_size cfg. \<forall>r.
             key_reports c r (cycle_reports st (snd (input_kbd_matrix_check_key_events cfg rr now st)))
               = (if matrix_stable_state (snd (input_kbd_matrix_check_key_events cfg rr now st)) ! c
                       AND BIT8 r \<noteq> matrix_stable_state st ! c AND BIT8 r
                  then [(c, r, matrix_new_state (snd (input_kbd_matrix_check_key_events cfg rr now st)) ! c
                                 AND BIT8 r)]
                  else []))
       \<and> (\<forall>e \<in> set (cycle_reports st (snd (input_kbd_matrix_check_key_events cfg rr now st))).
             fst e < col_size cfg \<and> fst (snd e) < row_size cfg)
       \<and> length (matrix_stable_state (snd (input_kbd_matrix_check_key_events cfg rr now st)))
           = length (matrix_stable_state st)
       \<and> (\<forall>c \<ge> col_size cfg.
             matrix_stable_state (snd (input_kbd_matrix_check_key_events cfg rr now st)) ! c
               = matrix_stable_state st ! c)
       \<and> (ghostkey_check cfg \<and> input_kbd_matrix_ghosting cfg (snd (input_kbd_matrix_scan cfg rr st))
            \<longrightarrow> matrix_stable_state (snd (input_kbd_matrix_check_key_events cfg rr now st))
                  = matrix_stable_state st
              \<and> cycle_reports st (snd (input_kbd_matrix_check_key_events cfg rr now st)) = [])"
proof (cases "ghostkey_check cfg \<and> input_kbd_matrix_ghosting cfg (snd (input_kbd_matrix_scan cfg rr st))")
  case True
  then have res: "snd (input_kbd_matrix_check_key_events cfg rr now st)
      = (snd (input_kbd_matrix_scan cfg rr st))
               \<lparr>scan_cycles_idx := advance_cursor cfg (scan_cycles_idx st)\<rparr>"
    by (simp add: check_key_events_cases)
  show ?thesis
    unfolding res by (simp add: scanned_frame cycle_reports_def key_reports_def)
next
  case False
  let ?s2 = "(snd (input_kbd_matrix_scan cfg rr st))
               \<lparr>scan_cycles_idx := advance_cursor cfg (scan_cycles_idx st)\<rparr>"
  from False have res: "snd (input_kbd_matrix_check_key_events cfg rr now st)
      = input_kbd_matrix_update_state cfg now ?s2"
    unfolding check_key_events_cases by (simp only: snd_conv if_False)
  have len: "col_size cfg \<le> length (matrix_stable_state ?s2)"
    using assms by (simp add: scanned_frame)
  have cr: "cycle_reports st x = cycle_reports ?s2 x" for x
    by (rule cycle_reports_cong) (simp add: scanned_frame)
  have a: "reported (input_kbd_matrix_update_state cfg now ?s2)
      = reported st @ cycle_reports st (input_kbd_matrix_update_state cfg now ?s2)"
    unfolding cr using update_state_reported [OF len, of now]
    by (simp add: cycle_reports_def scanned_frame)
  have b: "key_reports c r (cycle_reports st (input_kbd_matrix_update_state cfg now ?s2))
      = (if matrix_stable_state (input_kbd_matrix_update_state cfg now ?s2) ! c AND BIT8 r
              \<noteq> matrix_stable_state st ! c AND BIT8 r
         then [(c, r, matrix_new_state (input_kbd_matrix_update_state cfg now ?s2) ! c AND BIT8 r)]
         else [])" if "c < col_size cfg" for c r
    unfolding cr update_state_flips [OF len that, of r now]
    by (simp add: update_state_frame scanned_frame)
  have c: "fst e < col_size cfg \<and> fst (snd e) < row_size cfg"
    if "e \<in> set (cycle_reports st (input_kbd_matrix_update_state cfg now ?s2))" for e
    using that unfolding cr cycle_reports_update [OF len] by (rule col_reports_keys)
  have d: "length (matrix_stable_state (input_kbd_matrix_update_state cfg now ?s2))
      = length (matrix_stable_state st)"
    by (simp add: update_state_frame scanned_frame)
  have e: "matrix_stable_state (input_kbd_matrix_update_state cfg now ?s2) ! c
      = matrix_stable_state st ! c" if "col_size cfg \<le> c" for c
    using that by (simp add: update_state_frame scanned_frame)
  note f = scanned_frame(4) [of cfg rr st]
  show ?thesis
    unfolding res using False a b c d e f by blast
qed

text \<open>A held key is released; the cycle that sees the release runs one second after the
  counter started, and the window closes in that cycle.\<close>

theorem debounce_window_close_witness:
  "col_size kbd_2x2 \<le> length (matrix_stable_state release_scanned_2x2)
   \<and> 0 < col_size kbd_2x2 \<and> 0 < row_size kbd_2x2
   \<and> window_closes kbd_2x2 1000000 (gather_state kbd_2x2 1000000 release_scanned_2x2) 0 0
   \<and> matrix_stable_state release_scanned_2x2 ! 0 AND BIT8 0
        \<noteq> matrix_new_state release_scanned_2x2 ! 0 AND BIT8 0
   \<and> key_reports 0 0 (cycle_reports release_scanned_2x2
          (input_kbd_matrix_update_state kbd_2x2 1000000 release_scanned_2x2)) = [(0, 0, 0)]"
proof -
  have h1: "col_size kbd_2x2 \<le> length (matrix_stable_state release_scanned_2x2)"
    by code_simp
  have h2: "0 < col_size kbd_2x2" and h3: "0 < row_size kbd_2x2"
    by (simp_all add: kbd_2x2_def)
  have h4: "window_closes kbd_2x2 1000000 (gather_state kbd_2x2 1000000 release_scanned_2x2) 0 0"
    by code_simp
  have ne: "matrix_stable_state release_scanned_2x2 ! 0 AND BIT8 0
        \<noteq> matrix_new_state release_scanned_2x2 ! 0 AND BIT8 0"
    by code_simp
  have v: "matrix_new_state release_scanned_2x2 ! 0 AND BIT8 0 = 0"
    by code_simp
  have "key_reports 0 0 (cycle_reports release_scanned_2x2
          (input_kbd_matrix_update_state kbd_2x2 1000000 release_scanned_2x2))
      = [(0, 0, matrix_new_state release_scanned_2x2 ! 0 AND BIT8 0)]"
    using debounce_window_close [OF h1 h2 h3 h4] ne by blast
  then show ?thesis
    using h1 h2 h3 h4 ne by (simp add: v)
qed

text \<open>The same release as a whole cycle: one bit of the stable state flips, one
  transition is reported.\<close>

theorem stable_state_flips_with_reports_witness:
  "col_size kbd_2x2 \<le> length (matrix_stable_state held_2x2)
   \<and> matrix_stable_state (snd (input_kbd_matrix_check_key_events kbd_2x2 no_key 1000000 held_2x2)) ! 0
        AND BIT8 0 \<noteq> matrix_stable_state held_2x2 ! 0 AND BIT8 0
   \<and> key_reports 0 0 (cycle_reports held_2x2
          (snd (input_kbd_matrix_check_key_events kbd_2x2 no_key 1000000 held_2x2))) = [(0, 0, 0)]"
proof -
  let ?st' = "snd (input_kbd_matrix_check_key_events kbd_2x2 no_key 1000000 held_2x2)"
  have h: "col_size kbd_2x2 \<le> length (matrix_stable_state held_2x2)"
    by code_simp
  have c0: "0 < col_size kbd_2x2"
    by (simp add: kbd_2x2_def)
  have ne: "matrix_stable_state ?st' ! 0 AND BIT8 0 \<noteq> matrix_stable_state held_2x2 ! 0 AND BIT8 0"
    by code_simp
  have v: "matrix_new_state ?st' ! 0 AND BIT8 0 = 0"
    by code_simp
  have "\<forall>c < col_size kbd_2x2. \<forall>r.
          key_reports c r (cycle_reports held_2x2 ?st')
            = (if matrix_stable_state ?st' ! c AND BIT8 r \<noteq> matrix_stable_state held_2x2 ! c AND BIT8 r
               then [(c, r, matrix_new_state ?st' ! c AND BIT8 r)] else [])"
    using stable_state_flips_with_reports [OF h, of no_key 1000000] by blast
  with c0 have "key_reports 0 0 (cycle_reports held_2x2 ?st')
      = (if matrix_stable_state ?st' ! 0 AND BIT8 0 \<noteq> matrix_stable_state held_2x2 ! 0 AND BIT8 0
         then [(0, 0, matrix_new_state ?st' ! 0 AND BIT8 0)] else [])"
    by blast
  then show ?thesis
    using h ne by (simp add: v)
qed

section \<open>Two defects of the debounce engine, on concrete runs\<close>

text \<open>
  C1 on the code. Key (0, 0) of a 2x2 matrix is held and confirmed, then released. Three
  cycles 5 ms apart see the release, the first 200 us after the cycle counter started;
  the release threshold is 10000 us. In the third cycle the elapsed time is 10000 us, the
  window closes and the release is reported, but the unstable bit of the key is still
  set afterwards: \<open>matrix_unstable_state[c] &= ~row_bit\<close> clears nothing when the raw
  level is released, since \<open>row_bit\<close> is 0 then.
\<close>

theorem unstable_bit_kept_after_release:
  "input_kbd_matrix_check_key_events kbd_2x2 no_key 200 held_2x2 = (False, release_seen_2x2)
   \<and> input_kbd_matrix_check_key_events kbd_2x2 no_key 5200 release_seen_2x2
       = (False, release_settling_2x2)
   \<and> input_kbd_matrix_check_key_events kbd_2x2 no_key 10200 release_settling_2x2
       = (False, release_confirmed_2x2)
   \<and> key_debt kbd_2x2 10200 release_confirmed_2x2 0 0 = 10000
   \<and> debounce_up_ms kbd_2x2 = 10000
   \<and> reported release_confirmed_2x2 = [(0, 0, 0)]
   \<and> matrix_unstable_state release_confirmed_2x2 ! 0 AND BIT8 0 \<noteq> 0"
proof -
  have "input_kbd_matrix_check_key_events kbd_2x2 no_key 200 held_2x2 = (False, release_seen_2x2)"
    by code_simp
  moreover have "input_kbd_matrix_check_key_events kbd_2x2 no_key 5200 release_seen_2x2
       = (False, release_settling_2x2)"
    by code_simp
  moreover have "input_kbd_matrix_check_key_events kbd_2x2 no_key 10200 release_settling_2x2
       = (False, release_confirmed_2x2)"
    by code_simp
  moreover have "key_debt kbd_2x2 10200 release_confirmed_2x2 0 0 = 10000"
    by code_simp
  moreover have "debounce_up_ms kbd_2x2 = 10000"
    by (simp add: kbd_2x2_def)
  moreover have "reported release_confirmed_2x2 = [(0, 0, 0)]"
    by (simp add: release_confirmed_2x2_def)
  moreover have "matrix_unstable_state release_confirmed_2x2 ! 0 AND BIT8 0 \<noteq> 0"
    by code_simp
  ultimately show ?thesis by blast
qed

text \<open>
  C5 on the code. All keys are released and confirmed so; both thresholds are 10000 us
  and the counter runs at 1 MHz. One second after the counter started a cycle sees key
  (0, 0) pressed, and 5 ms later the next cycle sees it released. Each cycle reports a
  transition at once: the timestamp read from the ring is cut to its low 8 bits
  (\<open>uint8_t scan_clk_cycle\<close>), so the elapsed time is computed as 999936 us instead of 0.
\<close>

theorem bouncing_key_reported_at_once:
  "input_kbd_matrix_check_key_events kbd_2x2 one_key 1000000 released_2x2
       = (True, press_reported_2x2)
   \<and> input_kbd_matrix_check_key_events kbd_2x2 no_key 1005000 press_reported_2x2
       = (False, bounce_reported_2x2)
   \<and> reported bounce_reported_2x2 = [(0, 0, 1), (0, 0, 0)]
   \<and> debounce_down_ms kbd_2x2 = 10000 \<and> debounce_up_ms kbd_2x2 = 10000
   \<and> key_debt kbd_2x2 1000000 press_reported_2x2 0 0 = 999936"
proof -
  have "input_kbd_matrix_check_key_events kbd_2x2 one_key 1000000 released_2x2
       = (True, press_reported_2x2)"
    by code_simp
  moreover have "input_kbd_matrix_check_key_events kbd_2x2 no_key 1005000 press_reported_2x2
       = (False, bounce_reported_2x2)"
    by code_simp
  moreover have "reported bounce_reported_2x2 = [(0, 0, 1), (0, 0, 0)]"
    by (simp add: bounce_reported_2x2_def)
  moreover have "debounce_down_ms kbd_2x2 = 10000 \<and> debounce_up_ms kbd_2x2 = 10000"
    by (simp add: kbd_2x2_def)
  moreover have "key_debt kbd_2x2 1000000 press_reported_2x2 0 0 = 999936"
    by code_simp
  ultimately show ?thesis by blast
qed

section \<open>The ring cursor and a vetoed cycle\<close>

lemma advance_cursor_mod:
  assumes "unat idx < INPUT_KBD_MATRIX_SCAN_OCURRENCES cfg"
      and "INPUT_KBD_MATRIX_SCAN_OCURRENCES cfg \<le> 256"
  shows "unat (advance_cursor cfg idx) = (unat idx + 1) mod INPUT_KBD_MATRIX_SCAN_OCURRENCES cfg"
proof -
  let ?n = "unat idx" and ?cap = "INPUT_KBD_MATRIX_SCAN_OCURRENCES cfg"
  have u: "unat (idx + 1) = (?n + 1) mod 256"
    by (simp add: unat_word_ariths)
  show ?thesis
  proof (cases "?n + 1 < 256")
    case True
    then have v: "unat (idx + 1) = ?n + 1" using u by simp
    show ?thesis
    proof (cases "?cap \<le> ?n + 1")
      case True
      with assms(1) have "?cap = ?n + 1" by simp
      then show ?thesis by (simp add: advance_cursor_def v)
    next
      case False
      then show ?thesis by (simp add: advance_cursor_def v)
    qed
  next
    case False
    with assms have c: "?cap = 256" and n: "?n + 1 = 256" by simp_all
    from n have "unat (idx + 1) = 0" using u by simp
    then show ?thesis using c n by (simp add: advance_cursor_def)
  qed
qed

lemma advance_cursor_bound:
  assumes "0 < INPUT_KBD_MATRIX_SCAN_OCURRENCES cfg"
  shows "unat (advance_cursor cfg idx) < INPUT_KBD_MATRIX_SCAN_OCURRENCES cfg"
  using assms by (simp add: advance_cursor_def)

lemma check_key_events_cursor:
  "scan_cycles_idx (snd (input_kbd_matrix_check_key_events cfg rr now st))
     = advance_cursor cfg (scan_cycles_idx st)"
  by (simp add: check_key_events_cases update_state_frame)

lemma check_key_events_ring:
  "scan_clk_cycle (snd (input_kbd_matrix_check_key_events cfg rr now st))
     = (if ghostkey_check cfg \<and> input_kbd_matrix_ghosting cfg (snd (input_kbd_matrix_scan cfg rr st))
        then scan_clk_cycle st
        else (scan_clk_cycle st)[unat (advance_cursor cfg (scan_cycles_idx st)) := now])"
  by (simp add: check_key_events_cases update_state_frame scan_closed)

lemma cycle_gathered_ring:
  "scan_clk_cycle (cycle_gathered cfg rr now st)
     = (scan_clk_cycle st)[unat (advance_cursor cfg (scan_cycles_idx st)) := now]"
  by (simp add: cycle_gathered_def gather_state_frame scan_closed)

lemma check_key_events_gathered:
  "\<not> (ghostkey_check cfg \<and> input_kbd_matrix_ghosting cfg (snd (input_kbd_matrix_scan cfg rr st)))
   \<Longrightarrow> snd (input_kbd_matrix_check_key_events cfg rr now st)
     = fold (debounce_col cfg now) [0 ..< col_size cfg] (cycle_gathered cfg rr now st)"
  unfolding check_key_events_cases cycle_gathered_def update_state_split [symmetric]
  by (simp only: snd_conv if_False)

lemma mod_shift_neq:
  assumes "n < cap" and "0 < j" and "j < cap"
  shows "(n + j) mod cap \<noteq> (n :: nat)"
proof (cases "n + j < cap")
  case True
  with assms(2) show ?thesis by simp
next
  case False
  then have "(n + j) mod cap = n + j - cap"
    using assms(1,3) by (simp add: mod_if)
  with False assms(3) show ?thesis by simp
qed

lemma run_cycles_ring:
  assumes "unat (scan_cycles_idx s) < INPUT_KBD_MATRIX_SCAN_OCURRENCES cfg"
      and "INPUT_KBD_MATRIX_SCAN_OCURRENCES cfg \<le> 256"
      and "\<forall>j. 1 \<le> j \<and> j \<le> length cs
             \<longrightarrow> (unat (scan_cycles_idx s) + j) mod INPUT_KBD_MATRIX_SCAN_OCURRENCES cfg \<noteq> i"
  shows "scan_clk_cycle (run_cycles cfg cs s) ! i = scan_clk_cycle s ! i
       \<and> unat (scan_cycles_idx (run_cycles cfg cs s))
           = (unat (scan_cycles_idx s) + length cs) mod INPUT_KBD_MATRIX_SCAN_OCURRENCES cfg"
  using assms
proof (induction cs arbitrary: s)
  case Nil
  then show ?case by simp
next
  case (Cons a cs)
  obtain rr now where a: "a = (rr, now)" by (cases a)
  let ?cap = "INPUT_KBD_MATRIX_SCAN_OCURRENCES cfg"
  let ?s' = "snd (input_kbd_matrix_check_key_events cfg rr now s)"
  have cur: "unat (scan_cycles_idx ?s') = (unat (scan_cycles_idx s) + 1) mod ?cap"
    by (simp add: check_key_events_cursor advance_cursor_mod [OF Cons.prems(1,2)])
  have pos: "0 < ?cap" using Cons.prems(1) by simp
  have lt: "unat (scan_cycles_idx ?s') < ?cap"
    unfolding cur using pos by simp
  have "(unat (scan_cycles_idx s) + 1) mod ?cap \<noteq> i"
    using Cons.prems(3) [rule_format, of 1] by simp
  then have "unat (advance_cursor cfg (scan_cycles_idx s)) \<noteq> i"
    using cur by (simp add: check_key_events_cursor)
  then have ring: "scan_clk_cycle ?s' ! i = scan_clk_cycle s ! i"
    by (simp add: check_key_events_ring)
  have later: "\<forall>j. 1 \<le> j \<and> j \<le> length cs \<longrightarrow> (unat (scan_cycles_idx ?s') + j) mod ?cap \<noteq> i"
  proof (intro allI impI)
    fix j assume "1 \<le> j \<and> j \<le> length cs"
    then have "(unat (scan_cycles_idx s) + Suc j) mod ?cap \<noteq> i"
      using Cons.prems(3) [rule_format, of "Suc j"] by simp
    moreover have "(unat (scan_cycles_idx ?s') + j) mod ?cap
        = (unat (scan_cycles_idx s) + Suc j) mod ?cap"
      unfolding cur by (simp add: mod_add_left_eq)
    ultimately show "(unat (scan_cycles_idx ?s') + j) mod ?cap \<noteq> i" by simp
  qed
  have fin: "(unat (scan_cycles_idx ?s') + length cs) mod ?cap
      = (unat (scan_cycles_idx s) + length (a # cs)) mod ?cap"
    unfolding cur by (simp add: mod_add_left_eq)
  show ?case
    using Cons.IH [OF lt Cons.prems(2) later] ring fin by (simp add: a)
qed

text \<open>
  C10. With a cursor below the capacity of the ring (the capacity at most 256, the cursor
  being 8 bits wide), every cycle moves the cursor to the next slot modulo the capacity.
  A cycle vetoed by the ghosting check leaves the ring as it was, so the slot the cursor
  moved to keeps its earlier timestamp, while a cycle that is not vetoed writes its cycle
  count into that slot. In any later cycle before the cursor comes round to that slot
  again (\<open>cs\<close> are the cycles in between), a key whose slot number is that of the
  vetoed cycle has its elapsed time computed from the timestamp the slot held before the
  vetoed cycle (of which the code uses the low 8 bits), not from the time of the vetoed
  cycle.
\<close>

theorem vetoed_slot_keeps_stale_timestamp:
  assumes "unat (scan_cycles_idx st) < INPUT_KBD_MATRIX_SCAN_OCURRENCES cfg"
      and "INPUT_KBD_MATRIX_SCAN_OCURRENCES cfg \<le> 256"
      and "length cs + 2 \<le> INPUT_KBD_MATRIX_SCAN_OCURRENCES cfg"
      and "ghostkey_check cfg"
      and "input_kbd_matrix_ghosting cfg (snd (input_kbd_matrix_scan cfg rr st))"
      and "scan_cycle_idx
             (cycle_gathered cfg rr' now'
                (run_cycles cfg cs (snd (input_kbd_matrix_check_key_events cfg rr now st))))
             ! cyc_idx cfg c r
           = scan_cycles_idx (snd (input_kbd_matrix_check_key_events cfg rr now st))"
  shows "unat (scan_cycles_idx (snd (input_kbd_matrix_check_key_events cfg rr now st)))
           = (unat (scan_cycles_idx st) + 1) mod INPUT_KBD_MATRIX_SCAN_OCURRENCES cfg
       \<and> scan_clk_cycle (snd (input_kbd_matrix_check_key_events cfg rr now st)) = scan_clk_cycle st
       \<and> (\<forall>rr2 now2 st2.
            \<not> (ghostkey_check cfg
                 \<and> input_kbd_matrix_ghosting cfg (snd (input_kbd_matrix_scan cfg rr2 st2)))
            \<longrightarrow> scan_cycles_idx (snd (input_kbd_matrix_check_key_events cfg rr2 now2 st2))
                  = advance_cursor cfg (scan_cycles_idx st2)
              \<and> scan_clk_cycle (snd (input_kbd_matrix_check_key_events cfg rr2 now2 st2))
                  = (scan_clk_cycle st2)[unat (advance_cursor cfg (scan_cycles_idx st2)) := now2])
       \<and> key_debt cfg now'
            (cycle_gathered cfg rr' now'
               (run_cycles cfg cs (snd (input_kbd_matrix_check_key_events cfg rr now st)))) c r
           = k_cyc_to_us_floor32 cfg
               (now' - ucast (ucast (scan_clk_cycle st
                                      ! unat (advance_cursor cfg (scan_cycles_idx st))) :: u8))"
proof -
  let ?cap = "INPUT_KBD_MATRIX_SCAN_OCURRENCES cfg"
  let ?s1 = "snd (input_kbd_matrix_check_key_events cfg rr now st)"
  let ?sk = "run_cycles cfg cs ?s1"
  let ?slot = "advance_cursor cfg (scan_cycles_idx st)"
  have cur: "scan_cycles_idx ?s1 = ?slot"
    by (rule check_key_events_cursor)
  have a: "unat (scan_cycles_idx ?s1) = (unat (scan_cycles_idx st) + 1) mod ?cap"
    unfolding cur by (rule advance_cursor_mod [OF assms(1,2)])
  have b: "scan_clk_cycle ?s1 = scan_clk_cycle st"
    using assms(4,5) by (simp add: check_key_events_ring)
  have slot: "unat (scan_cycles_idx ?s1) < ?cap"
    unfolding cur using assms(3) by (intro advance_cursor_bound) simp
  have away: "(unat (scan_cycles_idx ?s1) + j) mod ?cap \<noteq> unat (scan_cycles_idx ?s1)"
    if "1 \<le> j" and "j \<le> length cs + 1" for j
    using that assms(3) by (intro mod_shift_neq [OF slot]) simp_all
  have "\<forall>j. 1 \<le> j \<and> j \<le> length cs
          \<longrightarrow> (unat (scan_cycles_idx ?s1) + j) mod ?cap \<noteq> unat (scan_cycles_idx ?s1)"
    using away by simp
  from run_cycles_ring [OF slot assms(2) this]
  have kept: "scan_clk_cycle ?sk ! unat (scan_cycles_idx ?s1) = scan_clk_cycle ?s1 ! unat (scan_cycles_idx ?s1)"
    and curk: "unat (scan_cycles_idx ?sk) = (unat (scan_cycles_idx ?s1) + length cs) mod ?cap"
    by simp_all
  have ltk: "unat (scan_cycles_idx ?sk) < ?cap"
    unfolding curk using slot by simp
  have "unat (advance_cursor cfg (scan_cycles_idx ?sk))
      = (unat (scan_cycles_idx ?s1) + (length cs + 1)) mod ?cap"
    unfolding advance_cursor_mod [OF ltk assms(2)] curk
    by (metis add.assoc mod_add_left_eq)
  then have moved: "unat (advance_cursor cfg (scan_cycles_idx ?sk)) \<noteq> unat (scan_cycles_idx ?s1)"
    using away [of "length cs + 1"] by simp
  have ring: "scan_clk_cycle (cycle_gathered cfg rr' now' ?sk) ! unat (scan_cycles_idx ?s1)
      = scan_clk_cycle st ! unat ?slot"
    unfolding cycle_gathered_ring using moved kept b cur by simp
  have d: "key_debt cfg now' (cycle_gathered cfg rr' now' ?sk) c r
           = k_cyc_to_us_floor32 cfg (now' - ucast (ucast (scan_clk_cycle st ! unat ?slot) :: u8))"
    unfolding key_debt_def Let_def assms(6) ring ..
  show ?thesis
    using a b d by (simp add: check_key_events_cursor check_key_events_ring)
qed

text \<open>Key (0, 0) carries slot 1, stamped at 200 us. The cursor moves to slot 1 in a cycle
  at 20200 us that is vetoed; two cycles later, at 30200 us, the elapsed time of the key
  is 30000 us.\<close>

theorem vetoed_slot_keeps_stale_timestamp_witness:
  "unat (scan_cycles_idx release_stuck_2x2) < INPUT_KBD_MATRIX_SCAN_OCURRENCES kbd_2x2
   \<and> INPUT_KBD_MATRIX_SCAN_OCURRENCES kbd_2x2 \<le> 256
   \<and> length [(no_key, 25200 :: u32)] + 2 \<le> INPUT_KBD_MATRIX_SCAN_OCURRENCES kbd_2x2
   \<and> ghostkey_check kbd_2x2
   \<and> input_kbd_matrix_ghosting kbd_2x2
        (snd (input_kbd_matrix_scan kbd_2x2 ghost_block release_stuck_2x2))
   \<and> scan_cycle_idx
        (cycle_gathered kbd_2x2 no_key 30200
           (run_cycles kbd_2x2 [(no_key, 25200)]
              (snd (input_kbd_matrix_check_key_events kbd_2x2 ghost_block 20200 release_stuck_2x2))))
        ! cyc_idx kbd_2x2 0 0
       = scan_cycles_idx
           (snd (input_kbd_matrix_check_key_events kbd_2x2 ghost_block 20200 release_stuck_2x2))
   \<and> scan_clk_cycle
         (snd (input_kbd_matrix_check_key_events kbd_2x2 ghost_block 20200 release_stuck_2x2))
       = scan_clk_cycle release_stuck_2x2
   \<and> key_debt kbd_2x2 30200
        (cycle_gathered kbd_2x2 no_key 30200
           (run_cycles kbd_2x2 [(no_key, 25200)]
              (snd (input_kbd_matrix_check_key_events kbd_2x2 ghost_block 20200 release_stuck_2x2))))
        0 0 = 30000"
proof -
  have h1: "unat (scan_cycles_idx release_stuck_2x2) < INPUT_KBD_MATRIX_SCAN_OCURRENCES kbd_2x2"
    by code_simp
  have h2: "INPUT_KBD_MATRIX_SCAN_OCURRENCES kbd_2x2 \<le> 256"
    and h3: "length [(no_key, 25200 :: u32)] + 2 \<le> INPUT_KBD_MATRIX_SCAN_OCURRENCES kbd_2x2"
    and h4: "ghostkey_check kbd_2x2"
    by (simp_all add: kbd_2x2_def)
  have h5: "input_kbd_matrix_ghosting kbd_2x2
        (snd (input_kbd_matrix_scan kbd_2x2 ghost_block release_stuck_2x2))"
    by code_simp
  have h6: "scan_cycle_idx
        (cycle_gathered kbd_2x2 no_key 30200
           (run_cycles kbd_2x2 [(no_key, 25200)]
              (snd (input_kbd_matrix_check_key_events kbd_2x2 ghost_block 20200 release_stuck_2x2))))
        ! cyc_idx kbd_2x2 0 0
       = scan_cycles_idx
           (snd (input_kbd_matrix_check_key_events kbd_2x2 ghost_block 20200 release_stuck_2x2))"
    by code_simp
  have v: "k_cyc_to_us_floor32 kbd_2x2
      (30200 - ucast (ucast (scan_clk_cycle release_stuck_2x2
          ! unat (advance_cursor kbd_2x2 (scan_cycles_idx release_stuck_2x2))) :: u8)) = 30000"
    by code_simp
  note r = vetoed_slot_keeps_stale_timestamp [OF h1 h2 h3 h4 h5 h6]
  have "scan_clk_cycle
         (snd (input_kbd_matrix_check_key_events kbd_2x2 ghost_block 20200 release_stuck_2x2))
       = scan_clk_cycle release_stuck_2x2"
    using r by blast
  moreover have "key_debt kbd_2x2 30200
        (cycle_gathered kbd_2x2 no_key 30200
           (run_cycles kbd_2x2 [(no_key, 25200)]
              (snd (input_kbd_matrix_check_key_events kbd_2x2 ghost_block 20200 release_stuck_2x2))))
        0 0 = 30000"
    using r v by metis
  ultimately show ?thesis
    using h1 h2 h3 h4 h5 h6 by blast
qed

section \<open>Polling loop: the idle deadline\<close>

lemma check_key_events_flag:
  "fst (input_kbd_matrix_check_key_events cfg rr now st) = (\<exists>c < col_size cfg. rr c AND 255 \<noteq> 0)"
  by (simp add: check_key_events_cases scan_flag)

lemma check_key_events_quiet:
  "fst (input_kbd_matrix_check_key_events cfg (read_row e) now st) = (\<not> quiet cfg e)"
  by (auto simp: check_key_events_flag quiet_def)

lemma poll_loop_active:
  "\<not> quiet cfg e \<Longrightarrow>
   poll_loop cfg (e # es) t d st sl
     = poll_loop cfg es
         (k_usleep (t + processing_us cfg e)
            (wait_period_us cfg (start_period_cycles e) (current_cycles e)))
         (sys_timepoint_calc (t + processing_us cfg e) (poll_timeout_ms cfg))
         (snd (input_kbd_matrix_check_key_events cfg (read_row e) (cycles_now e) st))
         (sl @ [wait_period_us cfg (start_period_cycles e) (current_cycles e)])"
  using check_key_events_quiet [of cfg e "cycles_now e" st]
  by (simp add: split_beta Let_def)

lemma poll_loop_exit:
  "quiet cfg e \<Longrightarrow> sys_timepoint_expired (t + processing_us cfg e) d \<Longrightarrow>
   poll_loop cfg (e # es) t d st sl
     = Some \<lparr>final_state = snd (input_kbd_matrix_check_key_events cfg (read_row e) (cycles_now e) st),
             slept = sl, exit_cycle_start = t, exit_uptime = t + processing_us cfg e,
             cycles_left = es\<rparr>"
  using check_key_events_quiet [of cfg e "cycles_now e" st]
  by (simp add: split_beta Let_def)

lemma poll_loop_wait:
  "quiet cfg e \<Longrightarrow> \<not> sys_timepoint_expired (t + processing_us cfg e) d \<Longrightarrow>
   poll_loop cfg (e # es) t d st sl
     = poll_loop cfg es
         (k_usleep (t + processing_us cfg e)
            (wait_period_us cfg (start_period_cycles e) (current_cycles e)))
         d
         (snd (input_kbd_matrix_check_key_events cfg (read_row e) (cycles_now e) st))
         (sl @ [wait_period_us cfg (start_period_cycles e) (current_cycles e)])"
  using check_key_events_quiet [of cfg e "cycles_now e" st]
  by (simp add: split_beta Let_def)

lemma k_usleep_cycle:
  "k_usleep (t + processing_us cfg e)
     (wait_period_us cfg (start_period_cycles e) (current_cycles e)) = t + cycle_us cfg e"
  by (simp add: k_usleep_def cycle_us_def)

lemma k_usleep_le:
  "k_usleep x (wait_period_us cfg s c) \<le> x + unat (poll_period_us cfg)"
  using wait_period_le [of cfg s c] by (simp add: k_usleep_def word_le_nat_alt)

text \<open>A run without key activity, started at uptime \<open>t\<close> with deadline \<open>d\<close>: if the last of
  the iterations starts at or after the deadline, the loop is left, by an iteration
  that starts less than one poll period after the deadline.\<close>

lemma poll_loop_quiet_exits:
  assumes "\<forall>e \<in> set envs. quiet cfg e \<and> processing_us cfg e \<le> q"
      and "envs \<noteq> []"
      and "t < d + unat (poll_period_us cfg)"
      and "d \<le> t + sum_list (map (cycle_us cfg) (butlast envs))"
  shows "\<exists>x. poll_loop cfg envs t d st sl = Some x
           \<and> d \<le> exit_uptime x
           \<and> exit_cycle_start x < d + unat (poll_period_us cfg)
           \<and> exit_cycle_start x \<le> exit_uptime x
           \<and> exit_uptime x \<le> exit_cycle_start x + q"
  using assms
proof (induction envs arbitrary: t st sl)
  case Nil
  then show ?case by simp
next
  case (Cons e es)
  then have q: "quiet cfg e" and pq: "processing_us cfg e \<le> q" by simp_all
  let ?c = "t + processing_us cfg e"
  show ?case
  proof (cases "sys_timepoint_expired ?c d")
    case True
    then have "d \<le> ?c" by (simp add: sys_timepoint_expired_def)
    then show ?thesis
      unfolding poll_loop_exit [OF q True] using Cons.prems(3) pq by simp
  next
    case False
    then have lt: "?c < d" by (simp add: sys_timepoint_expired_def)
    have ne: "es \<noteq> []"
    proof
      assume "es = []"
      then have "d \<le> t" using Cons.prems(4) by simp
      with lt show False by simp
    qed
    have next_start: "t + cycle_us cfg e < d + unat (poll_period_us cfg)"
    proof -
      have "t + cycle_us cfg e \<le> ?c + unat (poll_period_us cfg)"
        using k_usleep_le [of ?c cfg "start_period_cycles e" "current_cycles e"]
        by (simp add: k_usleep_cycle)
      with lt show ?thesis by simp
    qed
    have enough: "d \<le> t + cycle_us cfg e + sum_list (map (cycle_us cfg) (butlast es))"
      using Cons.prems(4) ne by (simp add: add.assoc)
    have "\<exists>x. poll_loop cfg es (t + cycle_us cfg e) d
         (snd (input_kbd_matrix_check_key_events cfg (read_row e) (cycles_now e) st))
         (sl @ [wait_period_us cfg (start_period_cycles e) (current_cycles e)]) = Some x
           \<and> d \<le> exit_uptime x
           \<and> exit_cycle_start x < d + unat (poll_period_us cfg)
           \<and> exit_cycle_start x \<le> exit_uptime x
           \<and> exit_uptime x \<le> exit_cycle_start x + q"
    proof (rule Cons.IH)
      show "\<forall>e \<in> set es. quiet cfg e \<and> processing_us cfg e \<le> q" using Cons.prems(1) by simp
      show "es \<noteq> []" by (rule ne)
      show "t + cycle_us cfg e < d + unat (poll_period_us cfg)" by (rule next_start)
      show "d \<le> t + cycle_us cfg e + sum_list (map (cycle_us cfg) (butlast es))" by (rule enough)
    qed
    then show ?thesis
      by (simp only: poll_loop_wait [OF q False] k_usleep_cycle)
  qed
qed

text \<open>
  C8, as the code has it. One iteration of the active loop started at uptime \<open>t\<close> with
  deadline \<open>d\<close> tests or recomputes the deadline when its processing is done. A cycle
  that reports raw activity continues the loop with the deadline reset to that uptime
  plus the idle timeout; a cycle without activity leaves the loop when the deadline has
  been reached, and otherwise continues with the deadline unchanged; a cycle reports
  activity exactly when it is not quiet. The next iteration starts after the sleep, at
  most one poll period later. Hence, when no cycle reports activity and the last of the
  iterations starts at or after the deadline, the loop does leave: in the first iteration
  that tests the deadline at or after it. That iteration starts less than one poll
  period after the deadline, and it tests the deadline its own processing time later
  (at most \<open>q\<close>, when \<open>q\<close> bounds the processing times). The same holds from the entry of
  the loop, where the deadline is the entry uptime plus the idle timeout.
\<close>

theorem idle_deadline:
  "(\<not> quiet cfg e \<longrightarrow>
      poll_loop cfg (e # es) t d st sl
        = poll_loop cfg es
            (k_usleep (t + processing_us cfg e)
               (wait_period_us cfg (start_period_cycles e) (current_cycles e)))
            (sys_timepoint_calc (t + processing_us cfg e) (poll_timeout_ms cfg))
            (snd (input_kbd_matrix_check_key_events cfg (read_row e) (cycles_now e) st))
            (sl @ [wait_period_us cfg (start_period_cycles e) (current_cycles e)]))
   \<and> (quiet cfg e \<and> sys_timepoint_expired (t + processing_us cfg e) d \<longrightarrow>
      poll_loop cfg (e # es) t d st sl
        = Some \<lparr>final_state = snd (input_kbd_matrix_check_key_events cfg (read_row e) (cycles_now e) st),
                slept = sl, exit_cycle_start = t, exit_uptime = t + processing_us cfg e,
                cycles_left = es\<rparr>)
   \<and> (quiet cfg e \<and> \<not> sys_timepoint_expired (t + processing_us cfg e) d \<longrightarrow>
      poll_loop cfg (e # es) t d st sl
        = poll_loop cfg es
            (k_usleep (t + processing_us cfg e)
               (wait_period_us cfg (start_period_cycles e) (current_cycles e)))
            d
            (snd (input_kbd_matrix_check_key_events cfg (read_row e) (cycles_now e) st))
            (sl @ [wait_period_us cfg (start_period_cycles e) (current_cycles e)]))
   \<and> quiet cfg e = (\<not> fst (input_kbd_matrix_check_key_events cfg (read_row e) (cycles_now e) st))
   \<and> sys_timepoint_calc (t + processing_us cfg e) (poll_timeout_ms cfg)
       = t + processing_us cfg e + 1000 * poll_timeout_ms cfg
   \<and> sys_timepoint_expired (t + processing_us cfg e) d = (d \<le> t + processing_us cfg e)
   \<and> k_usleep (t + processing_us cfg e)
        (wait_period_us cfg (start_period_cycles e) (current_cycles e))
       \<le> t + processing_us cfg e + unat (poll_period_us cfg)
   \<and> ((\<forall>e \<in> set envs. quiet cfg e \<and> processing_us cfg e \<le> q) \<and> envs \<noteq> []
        \<and> t < d + unat (poll_period_us cfg)
        \<and> d \<le> t + sum_list (map (cycle_us cfg) (butlast envs)) \<longrightarrow>
      (\<exists>x. poll_loop cfg envs t d st sl = Some x
           \<and> d \<le> exit_uptime x
           \<and> exit_cycle_start x < d + unat (poll_period_us cfg)
           \<and> exit_cycle_start x \<le> exit_uptime x
           \<and> exit_uptime x \<le> exit_cycle_start x + q))
   \<and> ((\<forall>e \<in> set envs. quiet cfg e \<and> processing_us cfg e \<le> q) \<and> envs \<noteq> []
        \<and> 0 < poll_timeout_ms cfg
        \<and> 1000 * poll_timeout_ms cfg \<le> sum_list (map (cycle_us cfg) (butlast envs)) \<longrightarrow>
      (\<exists>x. input_kbd_matrix_poll cfg t envs st = Some x
           \<and> t + 1000 * poll_timeout_ms cfg \<le> exit_uptime x
           \<and> exit_cycle_start x < t + 1000 * poll_timeout_ms cfg + unat (poll_period_us cfg)
           \<and> exit_cycle_start x \<le> exit_uptime x
           \<and> exit_uptime x \<le> exit_cycle_start x + q))"
proof -
  have general: "(\<forall>e \<in> set envs. quiet cfg e \<and> processing_us cfg e \<le> q) \<and> envs \<noteq> []
        \<and> t < d + unat (poll_period_us cfg)
        \<and> d \<le> t + sum_list (map (cycle_us cfg) (butlast envs)) \<longrightarrow>
      (\<exists>x. poll_loop cfg envs t d st sl = Some x
           \<and> d \<le> exit_uptime x
           \<and> exit_cycle_start x < d + unat (poll_period_us cfg)
           \<and> exit_cycle_start x \<le> exit_uptime x
           \<and> exit_uptime x \<le> exit_cycle_start x + q)"
    using poll_loop_quiet_exits [of envs cfg q t d st sl] by blast
  have entry: "(\<forall>e \<in> set envs. quiet cfg e \<and> processing_us cfg e \<le> q) \<and> envs \<noteq> []
        \<and> 0 < poll_timeout_ms cfg
        \<and> 1000 * poll_timeout_ms cfg \<le> sum_list (map (cycle_us cfg) (butlast envs)) \<longrightarrow>
      (\<exists>x. input_kbd_matrix_poll cfg t envs st = Some x
           \<and> t + 1000 * poll_timeout_ms cfg \<le> exit_uptime x
           \<and> exit_cycle_start x < t + 1000 * poll_timeout_ms cfg + unat (poll_period_us cfg)
           \<and> exit_cycle_start x \<le> exit_uptime x
           \<and> exit_uptime x \<le> exit_cycle_start x + q)"
  proof (intro impI)
    assume a: "(\<forall>e \<in> set envs. quiet cfg e \<and> processing_us cfg e \<le> q) \<and> envs \<noteq> []
        \<and> 0 < poll_timeout_ms cfg
        \<and> 1000 * poll_timeout_ms cfg \<le> sum_list (map (cycle_us cfg) (butlast envs))"
    have "\<exists>x. poll_loop cfg envs t (t + 1000 * poll_timeout_ms cfg) st [] = Some x
           \<and> t + 1000 * poll_timeout_ms cfg \<le> exit_uptime x
           \<and> exit_cycle_start x < t + 1000 * poll_timeout_ms cfg + unat (poll_period_us cfg)
           \<and> exit_cycle_start x \<le> exit_uptime x
           \<and> exit_uptime x \<le> exit_cycle_start x + q"
      using a by (intro poll_loop_quiet_exits) simp_all
    then show "\<exists>x. input_kbd_matrix_poll cfg t envs st = Some x
           \<and> t + 1000 * poll_timeout_ms cfg \<le> exit_uptime x
           \<and> exit_cycle_start x < t + 1000 * poll_timeout_ms cfg + unat (poll_period_us cfg)
           \<and> exit_cycle_start x \<le> exit_uptime x
           \<and> exit_uptime x \<le> exit_cycle_start x + q"
      by (simp add: input_kbd_matrix_poll_def sys_timepoint_calc_def)
  qed
  have calc: "sys_timepoint_calc (t + processing_us cfg e) (poll_timeout_ms cfg)
       = t + processing_us cfg e + 1000 * poll_timeout_ms cfg"
    by (simp add: sys_timepoint_calc_def)
  have expired: "sys_timepoint_expired (t + processing_us cfg e) d = (d \<le> t + processing_us cfg e)"
    by (simp add: sys_timepoint_expired_def)
  show ?thesis
    using poll_loop_active [of cfg e es t d st sl] poll_loop_exit [of cfg e t d es st sl]
      poll_loop_wait [of cfg e t d es st sl] check_key_events_quiet [of cfg e "cycles_now e" st]
      k_usleep_le [of "t + processing_us cfg e" cfg "start_period_cycles e" "current_cycles e"]
      calc expired general entry
    by blast
qed

text \<open>Idle timeout 10 ms, poll period 5 ms, every iteration taking 100 us: a key is read
  in the first iteration only, whose deadline test at 100 us sets the deadline to
  10100 us. The iterations start 5 ms apart; the one started at 10000 us tests the
  deadline at 10100 us and leaves the loop.\<close>

theorem idle_deadline_witness:
  "fst (input_kbd_matrix_check_key_events kbd_short_idle (read_row (cycle_taking one_key 100))
          (cycles_now (cycle_taking one_key 100)) released_2x2)
   \<and> processing_us kbd_short_idle (cycle_taking no_key 100) = 100
   \<and> cycle_us kbd_short_idle (cycle_taking no_key 100) = 5000
   \<and> (\<exists>x. input_kbd_matrix_poll kbd_short_idle 0
              [cycle_taking one_key 100, cycle_taking no_key 100, cycle_taking no_key 100,
               cycle_taking no_key 100]
              released_2x2 = Some x
          \<and> 10100 \<le> exit_uptime x \<and> exit_cycle_start x < 15100
          \<and> exit_uptime x \<le> exit_cycle_start x + 100)"
proof -
  let ?a = "cycle_taking one_key 100"
  let ?Q = "[cycle_taking no_key 100, cycle_taking no_key 100, cycle_taking no_key 100]"
  let ?w = "wait_period_us kbd_short_idle (start_period_cycles ?a) (current_cycles ?a)"
  let ?t = "k_usleep (0 + processing_us kbd_short_idle ?a) ?w"
  let ?d = "sys_timepoint_calc (0 + processing_us kbd_short_idle ?a) (poll_timeout_ms kbd_short_idle)"
  let ?st = "snd (input_kbd_matrix_check_key_events kbd_short_idle (read_row ?a)
                (cycles_now ?a) released_2x2)"
  have h1: "\<not> quiet kbd_short_idle ?a"
    by (simp add: quiet_def kbd_short_idle_def kbd_2x2_def cycle_taking_def one_key_def)
  have pr: "processing_us kbd_short_idle (cycle_taking no_key 100) = 100"
    by code_simp
  have cy: "cycle_us kbd_short_idle (cycle_taking no_key 100) = 5000"
    by code_simp
  have h2: "\<forall>e \<in> set ?Q. quiet kbd_short_idle e \<and> processing_us kbd_short_idle e \<le> 100"
    by (simp add: pr) (simp add: quiet_def cycle_taking_def no_key_def)
  have h3: "?Q \<noteq> []"
    by simp
  have dv: "?d = 10100" and ppv: "unat (poll_period_us kbd_short_idle) = 5000"
    and tv: "?t = 5000"
    by code_simp+
  have h4: "?t < ?d + unat (poll_period_us kbd_short_idle)"
    unfolding dv ppv tv by simp
  have h5: "?d \<le> ?t + sum_list (map (cycle_us kbd_short_idle) (butlast ?Q))"
    unfolding dv tv by (simp add: cy)
  have step: "poll_loop kbd_short_idle (?a # ?Q) 0
          (sys_timepoint_calc 0 (poll_timeout_ms kbd_short_idle)) released_2x2 []
      = poll_loop kbd_short_idle ?Q ?t ?d ?st ([] @ [?w])"
    using idle_deadline [where cfg = kbd_short_idle and e = ?a and es = ?Q and t = 0
        and d = "sys_timepoint_calc 0 (poll_timeout_ms kbd_short_idle)"
        and st = released_2x2 and sl = "[]", THEN conjunct1, rule_format, OF h1] .
  have "\<exists>x. poll_loop kbd_short_idle ?Q ?t ?d ?st ([] @ [?w]) = Some x
      \<and> ?d \<le> exit_uptime x
      \<and> exit_cycle_start x < ?d + unat (poll_period_us kbd_short_idle)
      \<and> exit_cycle_start x \<le> exit_uptime x
      \<and> exit_uptime x \<le> exit_cycle_start x + 100"
    using idle_deadline [where cfg = kbd_short_idle and envs = ?Q and t = ?t and d = ?d
        and st = ?st and sl = "[] @ [?w]" and q = 100] h2 h3 h4 h5
    by blast
  then obtain x where x: "poll_loop kbd_short_idle ?Q ?t ?d ?st ([] @ [?w]) = Some x"
    and x1: "?d \<le> exit_uptime x"
    and x2: "exit_cycle_start x < ?d + unat (poll_period_us kbd_short_idle)"
    and x3: "exit_uptime x \<le> exit_cycle_start x + 100"
    by blast
  have "input_kbd_matrix_poll kbd_short_idle 0 (?a # ?Q) released_2x2 = Some x"
    unfolding input_kbd_matrix_poll_def step by (rule x)
  moreover have "10100 \<le> exit_uptime x"
    using x1 unfolding dv .
  moreover have "exit_cycle_start x < 15100"
    using x2 unfolding dv ppv by simp
  ultimately have "\<exists>x. input_kbd_matrix_poll kbd_short_idle 0 (?a # ?Q) released_2x2 = Some x
      \<and> 10100 \<le> exit_uptime x \<and> exit_cycle_start x < 15100
      \<and> exit_uptime x \<le> exit_cycle_start x + 100"
    using x3 by blast
  moreover have "fst (input_kbd_matrix_check_key_events kbd_short_idle
          (read_row ?a) (cycles_now ?a) released_2x2)"
    using h1 by (simp add: check_key_events_quiet)
  ultimately show ?thesis
    using pr cy by blast
qed

text \<open>Idle timeout 10 ms, poll period 5 ms, no key read, the loop entered at uptime 0: the
  deadline is 10000 us. The processing of each iteration takes 9 ms. The first iteration
  tests the deadline at 9000 us and sleeps the full 5 ms; the second, started at
  14000 us, tests it at 23000 us and leaves the loop: 13 ms after the deadline, more
  than one poll period.\<close>

theorem idle_exit_after_slow_cycles:
  "map_option exit_uptime
     (input_kbd_matrix_poll kbd_short_idle 0
        [cycle_taking no_key 9000, cycle_taking no_key 9000] released_2x2) = Some 23000
   \<and> map_option exit_cycle_start
     (input_kbd_matrix_poll kbd_short_idle 0
        [cycle_taking no_key 9000, cycle_taking no_key 9000] released_2x2) = Some 14000
   \<and> \<not> fst (input_kbd_matrix_check_key_events kbd_short_idle
              (read_row (cycle_taking no_key 9000)) (cycles_now (cycle_taking no_key 9000))
              released_2x2)
   \<and> sys_timepoint_calc 0 (poll_timeout_ms kbd_short_idle) = 10000
   \<and> unat (poll_period_us kbd_short_idle) = 5000
   \<and> sys_timepoint_calc 0 (poll_timeout_ms kbd_short_idle)
        + unat (poll_period_us kbd_short_idle) < 23000"
proof -
  let ?c = "cycle_taking no_key 9000"
  let ?st = "snd (input_kbd_matrix_check_key_events kbd_short_idle (read_row ?c)
                (cycles_now ?c) released_2x2)"
  let ?w = "wait_period_us kbd_short_idle (start_period_cycles ?c) (current_cycles ?c)"
  have q: "quiet kbd_short_idle ?c"
    by (simp add: quiet_def cycle_taking_def no_key_def)
  have pr: "processing_us kbd_short_idle ?c = 9000"
    by (simp add: processing_us_def cycle_taking_def kbd_short_idle_def kbd_2x2_def cyc_1MHz_def)
  have w: "?w = 5000"
    by (simp add: wait_period_us_def cycle_taking_def kbd_short_idle_def kbd_2x2_def
        cyc_1MHz_def USEC_PER_MSEC_def)
  have d: "sys_timepoint_calc 0 (poll_timeout_ms kbd_short_idle) = 10000"
    by (simp add: sys_timepoint_calc_def kbd_short_idle_def kbd_2x2_def)
  have pp: "unat (poll_period_us kbd_short_idle) = 5000"
    by (simp add: kbd_short_idle_def kbd_2x2_def)
  have early: "\<not> sys_timepoint_expired (0 + processing_us kbd_short_idle ?c) 10000"
    by (simp add: pr sys_timepoint_expired_def)
  have late: "sys_timepoint_expired (14000 + processing_us kbd_short_idle ?c) 10000"
    by (simp add: pr sys_timepoint_expired_def)
  have sleep: "k_usleep (0 + processing_us kbd_short_idle ?c) ?w = 14000"
    by (simp add: pr w k_usleep_def)
  have "input_kbd_matrix_poll kbd_short_idle 0 [?c, ?c] released_2x2
      = poll_loop kbd_short_idle [?c] 14000 10000 ?st ([] @ [?w])"
    unfolding input_kbd_matrix_poll_def d poll_loop_wait [OF q early] sleep ..
  also have "\<dots> = Some \<lparr>final_state =
        snd (input_kbd_matrix_check_key_events kbd_short_idle (read_row ?c) (cycles_now ?c) ?st),
      slept = [] @ [?w], exit_cycle_start = 14000,
      exit_uptime = 14000 + processing_us kbd_short_idle ?c, cycles_left = []\<rparr>"
    by (rule poll_loop_exit [OF q late])
  finally have run: "input_kbd_matrix_poll kbd_short_idle 0 [?c, ?c] released_2x2
      = Some \<lparr>final_state =
        snd (input_kbd_matrix_check_key_events kbd_short_idle (read_row ?c) (cycles_now ?c) ?st),
      slept = [] @ [?w], exit_cycle_start = 14000,
      exit_uptime = 14000 + processing_us kbd_short_idle ?c, cycles_left = []\<rparr>" .
  have "\<not> fst (input_kbd_matrix_check_key_events kbd_short_idle
              (read_row ?c) (cycles_now ?c) released_2x2)"
    using q by (simp add: check_key_events_quiet)
  then show ?thesis
    unfolding run by (simp add: pr d pp)
qed

end
